theory Spec2Isabelle
  imports Complex_Main "HOL-Library.Word"
begin

section \<open>DeepLabV3Example: the segmentation-overlay pipeline of src/App.tsx\<close>

text \<open>
  The development embeds \<^verbatim>\<open>handleImage\<close> of \<^verbatim>\<open>src/App.tsx\<close> (lines 83 to 151) and the
  part of the component's view that offers the run (lines 183 to 188).

  \<^item> A tensor is its shape and its row-major data buffer.
  \<^item> The tensor runtime (react-native-pytorch-core) is not part of the repository. Its
    operations are modelled from the specification and from the way the source calls
    them; each such definition says so.
  \<^item> The runtime's float32 arithmetic is a parameter (a record of operations over an
    arbitrary element type), so that nothing proved depends on rounding. Scores are
    compared in a linear order (no NaN).
  \<^item> JavaScript's doubles in \<^verbatim>\<open>Math.min(250 / height, windowWidth / width)\<close> are
    idealised as reals, with division by zero written out as JavaScript has it.
  \<^item> An exception, and a rejected promise, is a value \<open>Inl e\<close>; the state reached when
    it was raised is returned with it.
  \<^item> The canvas is the list of the calls it has completed.
  \<^item> One call of \<^verbatim>\<open>handleImage\<close> is one function application. The handler reads the
    shared state only before its first \<^verbatim>\<open>await\<close> (the model, and the context
    reference once), so the calls it issues do not depend on what runs between its
    steps.
\<close>

subsection \<open>Constants of the source\<close>

definition IMAGES :: "string list" where
  "IMAGES =
    [''https://raw.githubusercontent.com/liuyinglao/TestData/main/airplane_resized.jpeg'',
     ''https://raw.githubusercontent.com/liuyinglao/TestData/main/voc2012_02.jpeg'',
     ''https://raw.githubusercontent.com/liuyinglao/TestData/main/voc2012_06.jpeg'',
     ''https://raw.githubusercontent.com/liuyinglao/TestData/main/voc2012_13.jpeg'',
     ''https://raw.githubusercontent.com/liuyinglao/TestData/main/voc2012_07.jpeg'',
     ''https://raw.githubusercontent.com/liuyinglao/TestData/main/voc2012_08.jpeg'',
     ''https://github.com/pytorch/hub/raw/master/images/deeplab1.png'']"

definition PALETTE :: "string list" where
  "PALETTE =
    [''aliceblue'', ''cornflowerblue'', ''cornsilk'', ''crimson'', ''cyan'', ''darkblue'',
     ''darkcyan'', ''darkgoldenrod'', ''darkgray'', ''antiquewhite'', ''aqua'',
     ''aquamarine'', ''beige'', ''blue'', ''blueviolet'', ''brown'', ''burlywood'',
     ''cadetblue'', ''chartreuse'', ''chocolate'', ''coral'']"

subsection \<open>Errors\<close>

datatype error =
    TypeError                  \<comment> \<open>JavaScript: a property read on \<^verbatim>\<open>undefined\<close>\<close>
  | InvalidImageError          \<comment> \<open>the pixel buffer does not fill the requested shape\<close>
  | UnsupportedBatchSizeError  \<comment> \<open>the batch dimension is not 1\<close>
  | ShapeMismatchError         \<comment> \<open>wrong rank, or nothing to reduce over\<close>
  | External string            \<comment> \<open>raised by a collaborator: image loader, model, canvas\<close>

subsection \<open>Tensors\<close>

type_synonym byte = "8 word"

record 'a tensor =
  shape :: "nat list"
  data :: "'a list"

text \<open>Row-major offset of a multi-index.\<close>

fun ravel :: "nat list \<Rightarrow> nat list \<Rightarrow> nat" where
  "ravel (d # ds) (i # is) = i * prod_list ds + ravel ds is"
| "ravel _ _ = 0"

text \<open>The multi-index of a row-major offset.\<close>

fun unravel :: "nat list \<Rightarrow> nat \<Rightarrow> nat list" where
  "unravel [] n = []"
| "unravel (d # ds) n = (n div prod_list ds) # unravel ds (n mod prod_list ds)"

definition tensor_at :: "'a tensor \<Rightarrow> nat list \<Rightarrow> 'a" where
  "tensor_at t idx = data t ! ravel (shape t) idx"

text \<open>The float32 arithmetic of the tensor runtime, left open.\<close>

record 'f arith =
  cast :: "byte \<Rightarrow> 'f"          \<comment> \<open>\<^verbatim>\<open>.to({dtype: torch.float32})\<close> on a byte\<close>
  lit :: "rat \<Rightarrow> 'f"            \<comment> \<open>a numeric literal of the source as a float32\<close>
  fdiv :: "'f \<Rightarrow> 'f \<Rightarrow> 'f"
  fsub :: "'f \<Rightarrow> 'f \<Rightarrow> 'f"

text \<open>
  Modelled from the spec: \<^verbatim>\<open>torch.fromBlob\<close> of react-native-pytorch-core is not in the
  repository. The buffer is read as a row-major tensor of the given shape (spec 4.1,
  step 1); a buffer that does not fill the shape is an \<open>InvalidImageError\<close>.
\<close>

definition fromBlob :: "'a list \<Rightarrow> nat list \<Rightarrow> error + 'a tensor" where
  "fromBlob b sh =
     (if length b = prod_list sh then Inr \<lparr>shape = sh, data = b\<rparr> else Inl InvalidImageError)"

text \<open>
  Modelled from the spec: \<^verbatim>\<open>Tensor.to\<close> and \<^verbatim>\<open>Tensor.div\<close> are not in the repository.
  Both work on every element (spec 4.1, step 2).
\<close>

definition to_float32 :: "'f arith \<Rightarrow> byte tensor \<Rightarrow> 'f tensor" where
  "to_float32 ar t = \<lparr>shape = shape t, data = map (cast ar) (data t)\<rparr>"

definition div_scalar :: "'f arith \<Rightarrow> rat \<Rightarrow> 'f tensor \<Rightarrow> 'f tensor" where
  "div_scalar ar k t = \<lparr>shape = shape t, data = map (\<lambda>v. fdiv ar v (lit ar k)) (data t)\<rparr>"

text \<open>Position of an axis in the list of axes given to \<^verbatim>\<open>permute\<close>.\<close>

fun index_of :: "nat list \<Rightarrow> nat \<Rightarrow> nat" where
  "index_of [] m = 0"
| "index_of (d # ds) m = (if d = m then 0 else Suc (index_of ds m))"

text \<open>
  Modelled from the spec: \<^verbatim>\<open>Tensor.permute\<close> is not in the repository. Axis \<open>k\<close> of the
  result is axis \<open>dims ! k\<close> of the argument (spec 4.1, step 3: \<^verbatim>\<open>[H, W, C]\<close> to
  \<^verbatim>\<open>[C, H, W]\<close> for \<^verbatim>\<open>[2, 0, 1]\<close>); the axes must be a permutation of the tensor's.
\<close>

definition permute :: "nat list \<Rightarrow> 'a tensor \<Rightarrow> error + 'a tensor" where
  "permute dims t =
     (if sort dims = [0..<length (shape t)] then
        let sh = map (\<lambda>d. shape t ! d) dims in
        Inr \<lparr>shape = sh,
             data = map (\<lambda>n. let idx = unravel sh n in
                              data t ! ravel (shape t)
                                 (map (\<lambda>m. idx ! index_of dims m) [0..<length dims]))
                        [0..<prod_list sh]\<rparr>
      else Inl ShapeMismatchError)"

text \<open>
  Modelled from the spec: \<^verbatim>\<open>torchvision.transforms.normalize\<close> is not in the repository.
  Channel \<open>c\<close> (the leading axis) becomes \<open>(value - mean[c]) / std[c]\<close> (spec 4.1,
  step 4); there must be one mean and one deviation for each channel.
\<close>

definition transforms_normalize :: "'f arith \<Rightarrow> 'f list \<Rightarrow> 'f list \<Rightarrow> 'f tensor \<Rightarrow> error + 'f tensor" where
  "transforms_normalize ar mean std t =
     (case shape t of
        [] \<Rightarrow> Inl ShapeMismatchError
      | c # rest \<Rightarrow>
          if length mean = c \<and> length std = c then
            Inr \<lparr>shape = shape t,
                 data = map (\<lambda>n. let ch = n div prod_list rest in
                                  fdiv ar (fsub ar (data t ! n) (mean ! ch)) (std ! ch))
                            [0..<length (data t)]\<rparr>
          else Inl ShapeMismatchError)"

text \<open>
  Modelled from the spec: \<^verbatim>\<open>Tensor.unsqueeze\<close> is not in the repository. \<^verbatim>\<open>unsqueeze(0)\<close>
  prepends a dimension of size 1 (spec 4.1, step 5).
\<close>

definition unsqueeze0 :: "'a tensor \<Rightarrow> 'a tensor" where
  "unsqueeze0 t = \<lparr>shape = 1 # shape t, data = data t\<rparr>"

text \<open>
  Modelled from the spec: \<^verbatim>\<open>Tensor.squeeze\<close> is not in the repository. \<^verbatim>\<open>squeeze(0)\<close>
  removes the batch dimension, which must be exactly 1 (spec 4.2).
\<close>

definition squeeze0 :: "'a tensor \<Rightarrow> error + 'a tensor" where
  "squeeze0 t =
     (case shape t of
        [] \<Rightarrow> Inl UnsupportedBatchSizeError
      | b # rest \<Rightarrow>
          if b = 1 then Inr \<lparr>shape = rest, data = data t\<rparr> else Inl UnsupportedBatchSizeError)"

text \<open>
  Modelled from the spec: \<^verbatim>\<open>Tensor.argmax\<close> is not in the repository. The classes are
  scanned in ascending order and the first maximum is kept (spec 4.2): the candidate is
  replaced only by a strictly greater score.
\<close>

fun argmax_from :: "'a::linorder list \<Rightarrow> nat \<Rightarrow> nat \<Rightarrow> 'a \<Rightarrow> nat" where
  "argmax_from [] k best bv = best"
| "argmax_from (x # xs) k best bv =
     (if bv < x then argmax_from xs (Suc k) k x else argmax_from xs (Suc k) best bv)"

definition argmax_list :: "'a::linorder list \<Rightarrow> nat" where
  "argmax_list xs = (case xs of [] \<Rightarrow> 0 | x # rest \<Rightarrow> argmax_from rest 1 0 x)"

text \<open>
  \<^verbatim>\<open>argmax({dim: 0})\<close> on a tensor of rank 3: one scan over the classes for every
  position of the remaining axes. The result holds class indices (int64).
\<close>

definition argmax0 :: "'a::linorder tensor \<Rightarrow> error + int tensor" where
  "argmax0 t =
     (case shape t of
        [c, h, w] \<Rightarrow>
          if c = 0 then Inl ShapeMismatchError
          else Inr \<lparr>shape = [h, w],
                    data = map (\<lambda>p. int (argmax_list (map (\<lambda>k. data t ! (k * (h * w) + p)) [0..<c])))
                               [0..<h * w]\<rparr>
      | _ \<Rightarrow> Inl ShapeMismatchError)"

subsection \<open>Images, the canvas and JavaScript numbers\<close>

record image =
  getHeight :: nat
  getWidth :: nat
  toBlob :: "byte list"   \<comment> \<open>\<^verbatim>\<open>media.toBlob(image)\<close>\<close>

datatype jsnum = Num real | PosInfinity | NegInfinity | NaN

text \<open>JavaScript's \<^verbatim>\<open>a / b\<close> on finite numbers: a zero divisor gives an infinity or NaN.\<close>

definition js_div :: "real \<Rightarrow> real \<Rightarrow> jsnum" where
  "js_div a b =
     (if b \<noteq> 0 then Num (a / b)
      else if 0 < a then PosInfinity
      else if a < 0 then NegInfinity
      else NaN)"

text \<open>\<^verbatim>\<open>Math.min\<close> of two numbers: NaN if either is NaN.\<close>

fun js_min :: "jsnum \<Rightarrow> jsnum \<Rightarrow> jsnum" where
  "js_min NaN _ = NaN"
| "js_min _ NaN = NaN"
| "js_min NegInfinity _ = NegInfinity"
| "js_min _ NegInfinity = NegInfinity"
| "js_min PosInfinity y = y"
| "js_min x PosInfinity = x"
| "js_min (Num a) (Num b) = Num (min a b)"

text \<open>Line 124.\<close>

definition newScaleFactor :: "real \<Rightarrow> nat \<Rightarrow> nat \<Rightarrow> jsnum" where
  "newScaleFactor windowWidth h w = js_min (js_div 250 (real h)) (js_div windowWidth (real w))"

datatype canvas_op =
    Clear
  | Invalidate
  | Save
  | Scale jsnum jsnum
  | DrawImage image nat nat nat nat
  | FillStyle "string option"      \<comment> \<open>the assignment to \<^verbatim>\<open>ctx.fillStyle\<close>; \<open>None\<close> is \<^verbatim>\<open>undefined\<close>\<close>
  | FillRect nat nat nat nat
  | Restore

subsection \<open>The component's state and its surroundings\<close>

text \<open>What \<^verbatim>\<open>handleImage\<close> writes.\<close>

record 'f state =
  isProcessing :: bool
  alerts :: "(string \<times> string) list"    \<comment> \<open>calls of \<^verbatim>\<open>Alert.alert\<close>\<close>
  fetched :: "string list"               \<comment> \<open>calls of \<^verbatim>\<open>ImageUtil.fromURL\<close>\<close>
  forwarded :: "'f tensor list"          \<comment> \<open>calls of \<^verbatim>\<open>model.forward\<close>\<close>
  canvas :: "canvas_op list"             \<comment> \<open>calls the drawing context has completed\<close>

text \<open>
  What \<^verbatim>\<open>handleImage\<close> reads: the model of \<^verbatim>\<open>useModel\<close> (\<open>None\<close> is \<^verbatim>\<open>null\<close>; a model is
  its \<^verbatim>\<open>forward\<close>, which rejects or resolves, possibly to \<^verbatim>\<open>undefined\<close>), whether
  \<^verbatim>\<open>context2DRef.current\<close> is a context, the outcome of the image loader, the window's
  width, and which canvas call, after which earlier calls, the runtime rejects.
\<close>

record 'f env =
  isReady :: bool
  model :: "('f tensor \<Rightarrow> error + 'f tensor option) option"
  hasContext :: bool
  fromURL :: "string \<Rightarrow> error + image"
  windowWidth :: real
  raises :: "canvas_op list \<Rightarrow> canvas_op \<Rightarrow> error option"
  arith :: "'f arith"

type_synonym ('s, 'a) exec = "'s \<Rightarrow> (error + 'a) \<times> 's"

definition ret :: "'a \<Rightarrow> ('s, 'a) exec" where
  "ret x = (\<lambda>s. (Inr x, s))"

definition throw :: "error \<Rightarrow> ('s, 'a) exec" where
  "throw e = (\<lambda>s. (Inl e, s))"

definition bind :: "('s, 'a) exec \<Rightarrow> ('a \<Rightarrow> ('s, 'b) exec) \<Rightarrow> ('s, 'b) exec" where
  "bind m f = (\<lambda>s. case m s of (Inl e, s') \<Rightarrow> (Inl e, s') | (Inr x, s') \<Rightarrow> f x s')"

text \<open>A pure step that may raise.\<close>

definition lift :: "error + 'a \<Rightarrow> ('s, 'a) exec" where
  "lift r = (\<lambda>s. (r, s))"

definition setIsProcessing :: "bool \<Rightarrow> ('f state, unit) exec" where
  "setIsProcessing b = (\<lambda>s. (Inr (), s\<lparr>isProcessing := b\<rparr>))"

definition alert :: "string \<Rightarrow> string \<Rightarrow> ('f state, unit) exec" where
  "alert title msg = (\<lambda>s. (Inr (), s\<lparr>alerts := alerts s @ [(title, msg)]\<rparr>))"

text \<open>A call on the drawing context: rejected by the runtime, or completed and recorded.\<close>

definition ctx_call :: "'f env \<Rightarrow> canvas_op \<Rightarrow> ('f state, unit) exec" where
  "ctx_call env op =
     (\<lambda>s. case raises env (canvas s) op of
            Some e \<Rightarrow> (Inl e, s)
          | None \<Rightarrow> (Inr (), s\<lparr>canvas := canvas s @ [op]\<rparr>))"

definition ImageUtil_fromURL :: "'f env \<Rightarrow> string \<Rightarrow> ('f state, image) exec" where
  "ImageUtil_fromURL env url = (\<lambda>s. (fromURL env url, s\<lparr>fetched := fetched s @ [url]\<rparr>))"

definition forward ::
  "('f tensor \<Rightarrow> error + 'f tensor option) \<Rightarrow> 'f tensor \<Rightarrow> ('f state, 'f tensor option) exec" where
  "forward m t = (\<lambda>s. (m t, s\<lparr>forwarded := forwarded s @ [t]\<rparr>))"

subsection \<open>The steps of \<^verbatim>\<open>handleImage\<close>\<close>

text \<open>Lines 102 to 115.\<close>

definition preprocess :: "'f arith \<Rightarrow> image \<Rightarrow> error + 'f tensor" where
  "preprocess ar img =
     (let h = getHeight img; w = getWidth img in
      case fromBlob (toBlob img) [h, w, 3] of
        Inl e \<Rightarrow> Inl e
      | Inr t0 \<Rightarrow>
         (case permute [2, 0, 1] (div_scalar ar 255 (to_float32 ar t0)) of
            Inl e \<Rightarrow> Inl e
          | Inr t1 \<Rightarrow>
             (case transforms_normalize ar (map (lit ar) [485 / 1000, 456 / 1000, 406 / 1000])
                                (map (lit ar) [229 / 1000, 224 / 1000, 225 / 1000]) t1 of
                Inl e \<Rightarrow> Inl e
              | Inr t2 \<Rightarrow> Inr (unsqueeze0 t2))))"

text \<open>
  Line 119, \<^verbatim>\<open>output?.out.squeeze(0).argmax({dim: 0})\<close>: the optional chain makes the
  whole expression \<^verbatim>\<open>undefined\<close> when the output is.
\<close>

definition squeeze_argmax :: "'f::linorder tensor \<Rightarrow> error + int tensor" where
  "squeeze_argmax out = (case squeeze0 out of Inl e \<Rightarrow> Inl e | Inr t \<Rightarrow> argmax0 t)"

definition decode :: "'f::linorder tensor option \<Rightarrow> error + int tensor option" where
  "decode output =
     (case output of
        None \<Rightarrow> Inr None
      | Some out \<Rightarrow> (case squeeze_argmax out of Inl e \<Rightarrow> Inl e | Inr m \<Rightarrow> Inr (Some m)))"

text \<open>\<^verbatim>\<open>colors[k]\<close> on a typed array: \<^verbatim>\<open>undefined\<close> out of range.\<close>

definition colors_at :: "int list \<Rightarrow> nat \<Rightarrow> int option" where
  "colors_at colors k = (if k < length colors then Some (colors ! k) else None)"

text \<open>\<^verbatim>\<open>PALETTE[idx]\<close>: \<^verbatim>\<open>undefined\<close> outside the array.\<close>

definition palette_at :: "int \<Rightarrow> string option" where
  "palette_at idx =
     (if 0 \<le> idx \<and> nat idx < length PALETTE then Some (PALETTE ! nat idx) else None)"

text \<open>Lines 137 to 141, the body of the inner loop. \<^verbatim>\<open>undefined > 0\<close> is false.\<close>

definition paintPixel :: "'f env \<Rightarrow> int list \<Rightarrow> nat \<Rightarrow> nat \<Rightarrow> nat \<Rightarrow> ('f state, unit) exec" where
  "paintPixel env colors w i j =
     (case colors_at colors (i * w + j) of
        None \<Rightarrow> ret ()
      | Some idx \<Rightarrow>
          if idx > 0 then
            bind (ctx_call env (FillStyle (palette_at idx))) (\<lambda>_.
            ctx_call env (FillRect j i 1 1))
          else ret ())"

text \<open>Line 136, the inner loop from column \<open>j\<close> on.\<close>

function paintRow :: "'f env \<Rightarrow> int list \<Rightarrow> nat \<Rightarrow> nat \<Rightarrow> nat \<Rightarrow> ('f state, unit) exec" where
  "paintRow env colors w i j s =
     (if j < w then
        (case paintPixel env colors w i j s of
           (Inl e, s') \<Rightarrow> (Inl e, s')
         | (Inr _, s') \<Rightarrow> paintRow env colors w i (Suc j) s')
      else (Inr (), s))"
  by pat_completeness auto
termination
  by (relation "measure (\<lambda>(env, colors, w, i, j, s). w - j)") auto

text \<open>Line 135, the outer loop from row \<open>i\<close> on.\<close>

function paintRows :: "'f env \<Rightarrow> int list \<Rightarrow> nat \<Rightarrow> nat \<Rightarrow> nat \<Rightarrow> ('f state, unit) exec" where
  "paintRows env colors h w i s =
     (if i < h then
        (case paintRow env colors w i 0 s of
           (Inl e, s') \<Rightarrow> (Inl e, s')
         | (Inr _, s') \<Rightarrow> paintRows env colors h w (Suc i) s')
      else (Inr (), s))"
  by pat_completeness auto
termination
  by (relation "measure (\<lambda>(env, colors, h, w, i, s). h - i)") auto

text \<open>Line 134: \<^verbatim>\<open>max.data\<close> raises a TypeError when \<^verbatim>\<open>max\<close> is \<^verbatim>\<open>undefined\<close>.\<close>

definition max_data :: "int tensor option \<Rightarrow> ('s, int list) exec" where
  "max_data mx = (case mx of None \<Rightarrow> throw TypeError | Some t \<Rightarrow> ret (data t))"

text \<open>Lines 122 to 147, the body of the second \<^verbatim>\<open>if (ctx !== null)\<close>.\<close>

definition render :: "'f env \<Rightarrow> image \<Rightarrow> int tensor option \<Rightarrow> ('f state, unit) exec" where
  "render env img mx =
     (let h = getHeight img; w = getWidth img;
          f = newScaleFactor (windowWidth env) h w in
      bind (ctx_call env Save) (\<lambda>_.
      bind (ctx_call env (Scale f f)) (\<lambda>_.
      bind (ctx_call env (DrawImage img 0 0 w h)) (\<lambda>_.
      bind (max_data mx) (\<lambda>colors.
      bind (paintRows env colors h w 0) (\<lambda>_.
      bind (ctx_call env Restore) (\<lambda>_.
      ctx_call env Invalidate)))))))"

text \<open>Lines 129 to 143, what \<^verbatim>\<open>handleImage\<close> does between \<^verbatim>\<open>save()\<close> and \<^verbatim>\<open>restore()\<close>.\<close>

definition draw_sequence :: "'f env \<Rightarrow> image \<Rightarrow> int tensor option \<Rightarrow> ('f state, unit) exec" where
  "draw_sequence env img mx =
     (let h = getHeight img; w = getWidth img;
          f = newScaleFactor (windowWidth env) h w in
      bind (ctx_call env (Scale f f)) (\<lambda>_.
      bind (ctx_call env (DrawImage img 0 0 w h)) (\<lambda>_.
      bind (max_data mx) (\<lambda>colors.
      paintRows env colors h w 0))))"

text \<open>Lines 96 to 99.\<close>

definition clearCanvas :: "'f env \<Rightarrow> ('f state, unit) exec" where
  "clearCanvas env =
     (if hasContext env then bind (ctx_call env Clear) (\<lambda>_. ctx_call env Invalidate)
      else ret ())"

text \<open>Lines 83 to 151.\<close>

definition handleImage :: "'f::linorder env \<Rightarrow> string \<Rightarrow> ('f state, unit) exec" where
  "handleImage env imageUrl =
     (case model env of
        None \<Rightarrow> alert ''Model not loaded'' ''The model has not been loaded yet''
      | Some m \<Rightarrow>
          bind (setIsProcessing True) (\<lambda>_.
          bind (clearCanvas env) (\<lambda>_.
          bind (ImageUtil_fromURL env imageUrl) (\<lambda>img.
          bind (lift (preprocess (arith env) img)) (\<lambda>t.
          bind (forward m t) (\<lambda>output.
          bind (lift (decode output)) (\<lambda>mx.
          bind (if hasContext env then render env img mx else ret ()) (\<lambda>_.
          setIsProcessing False))))))))"

subsection \<open>The view, lines 183 to 188\<close>

record view =
  segment_button :: bool         \<comment> \<open>the button "Segment pictures"\<close>
  loading_indicator :: bool      \<comment> \<open>shown in place of the button\<close>
  processing_indicator :: bool   \<comment> \<open>shown while \<open>isProcessing\<close>\<close>

definition ImageSegmentation_view :: "'f env \<Rightarrow> 'f state \<Rightarrow> view" where
  "ImageSegmentation_view env s =
     \<lparr>segment_button = isReady env,
      loading_indicator = (\<not> isReady env),
      processing_indicator = isProcessing s\<rparr>"

text \<open>
  A press on the button, when the view offers it: \<^verbatim>\<open>onPress\<close> calls \<^verbatim>\<open>handleImage\<close> with
  the selected image's address. Without the button there is nothing to press.
\<close>

definition onPress :: "'f::linorder env \<Rightarrow> nat \<Rightarrow> ('f state, unit) exec" where
  "onPress env imageIndex =
     (\<lambda>s. if segment_button (ImageSegmentation_view env s)
          then handleImage env (IMAGES ! imageIndex) s
          else (Inr (), s))"

declare paintRow.simps [simp del] paintRows.simps [simp del]

subsection \<open>The calls a run makes\<close>

text \<open>
  The calls on the drawing context that the loops of lines 135 to 143 make when no call
  is rejected: for one pixel, for the rest of a row, and for the remaining rows.
\<close>

definition pixel_calls :: "int list \<Rightarrow> nat \<Rightarrow> nat \<Rightarrow> nat \<Rightarrow> canvas_op list" where
  "pixel_calls colors w i j =
     (case colors_at colors (i * w + j) of
        None \<Rightarrow> []
      | Some idx \<Rightarrow> if idx > 0 then [FillStyle (palette_at idx), FillRect j i 1 1] else [])"

definition row_calls :: "int list \<Rightarrow> nat \<Rightarrow> nat \<Rightarrow> nat \<Rightarrow> canvas_op list" where
  "row_calls colors w i j = concat (map (pixel_calls colors w i) [j..<w])"

definition rows_calls :: "int list \<Rightarrow> nat \<Rightarrow> nat \<Rightarrow> nat \<Rightarrow> canvas_op list" where
  "rows_calls colors h w i = concat (map (\<lambda>i. row_calls colors w i 0) [i..<h])"

text \<open>The calls of lines 96 to 99, and those of lines 126 to 147.\<close>

definition clear_script :: "'f env \<Rightarrow> canvas_op list" where
  "clear_script env = (if hasContext env then [Clear, Invalidate] else [])"

definition render_script :: "'f env \<Rightarrow> image \<Rightarrow> int tensor option \<Rightarrow> canvas_op list" where
  "render_script env img mx =
     (let h = getHeight img; w = getWidth img;
          f = newScaleFactor (windowWidth env) h w in
      [Save, Scale f f, DrawImage img 0 0 w h] @
      (case mx of None \<Rightarrow> [] | Some t \<Rightarrow> rows_calls (data t) h w 0) @
      [Restore, Invalidate])"

text \<open>
  A step follows a script when the calls it completes are a prefix of the script, the
  whole script exactly when the step returns normally, and it changes nothing but the
  canvas.
\<close>

definition follows_script :: "('f state, 'a) exec \<Rightarrow> canvas_op list \<Rightarrow> bool" where
  "follows_script m script =
     (\<forall>s r s'. m s = (r, s') \<longrightarrow>
        (\<exists>ops rest. s' = s\<lparr>canvas := canvas s @ ops\<rparr> \<and> ops @ rest = script \<and>
                     ((\<exists>x. r = Inr x) \<longleftrightarrow> rest = [])))"

text \<open>The calls that paint: the fill style and the rectangle.\<close>

fun is_paint :: "canvas_op \<Rightarrow> bool" where
  "is_paint (FillStyle c) = True"
| "is_paint (FillRect x y a b) = True"
| "is_paint _ = False"

subsection \<open>The overlay as the specification describes it\<close>

text \<open>
  Spec 4.3, in the specification's words: for every pixel \<open>(i, j)\<close> with
  \<open>mask[i][j] \<noteq> 0\<close>, a unit rectangle at \<open>(j, i)\<close> filled with
  \<open>palette[mask[i][j]]\<close>; nothing for a background pixel. Rows first.
\<close>

definition overlay_at :: "int list \<Rightarrow> nat \<Rightarrow> nat \<Rightarrow> nat \<Rightarrow> canvas_op list" where
  "overlay_at msk w i j =
     (if msk ! (i * w + j) \<noteq> 0
      then [FillStyle (palette_at (msk ! (i * w + j))), FillRect j i 1 1] else [])"

definition spec_overlay :: "int list \<Rightarrow> nat \<Rightarrow> nat \<Rightarrow> canvas_op list" where
  "spec_overlay msk h w = concat (map (\<lambda>i. concat (map (\<lambda>j. overlay_at msk w i j) [0..<w])) [0..<h])"

subsection \<open>Concrete inputs\<close>

text \<open>Exact rational arithmetic in place of float32.\<close>

definition example_arith :: "rat arith" where
  "example_arith =
     \<lparr>cast = (\<lambda>b. of_nat (unat b)), lit = (\<lambda>q. q),
      fdiv = (\<lambda>a b. a / b), fsub = (\<lambda>a b. a - b)\<rparr>"

text \<open>An image of one row and two pixels.\<close>

definition example_image :: image where
  "example_image = \<lparr>getHeight = 1, getWidth = 2, toBlob = [255, 0, 51, 0, 255, 102]\<rparr>"

text \<open>
  Scores of three classes for that image: the first pixel has a tie between classes 0
  and 1, the second has its maximum at class 2.
\<close>

definition example_output :: "rat tensor" where
  "example_output = \<lparr>shape = [1, 3, 1, 2], data = [1, 5, 1, 5, 0, 7]\<rparr>"

text \<open>Scores of 22 classes for that image, the last class winning at both pixels.\<close>

definition oversized_output :: "rat tensor" where
  "oversized_output = \<lparr>shape = [1, 22, 1, 2], data = replicate 42 0 @ [1, 1]\<rparr>"

text \<open>A loaded model, a mounted canvas, a reachable image, no rejected call.\<close>

definition example_env :: "rat env" where
  "example_env =
     \<lparr>isReady = True,
      model = Some (\<lambda>t. Inr (Some example_output)),
      hasContext = True,
      fromURL = (\<lambda>url. Inr example_image),
      windowWidth = 400,
      raises = (\<lambda>log op. None),
      arith = example_arith\<rparr>"

definition idle :: "rat state" where
  "idle = \<lparr>isProcessing = False, alerts = [], fetched = [], forwarded = [], canvas = []\<rparr>"

text \<open>The same surroundings with an unreachable image.\<close>

definition offline_env :: "rat env" where
  "offline_env = example_env\<lparr>fromURL := (\<lambda>url. Inl (External ''offline''))\<rparr>"

text \<open>With a model that resolves to \<^verbatim>\<open>undefined\<close>.\<close>

definition undefined_output_env :: "rat env" where
  "undefined_output_env = example_env\<lparr>model := Some (\<lambda>t. Inr None)\<rparr>"

text \<open>With a model of 22 classes.\<close>

definition oversized_env :: "rat env" where
  "oversized_env = example_env\<lparr>model := Some (\<lambda>t. Inr (Some oversized_output))\<rparr>"

text \<open>A run is in flight.\<close>

definition busy :: "rat state" where
  "busy = idle\<lparr>isProcessing := True\<rparr>"

text \<open>The tensor that the preprocessing makes of the example image.\<close>

definition example_tensor :: "rat tensor" where
  "example_tensor =
     \<lparr>shape = [1, 3, 1, 2],
      data = [515 / 229, - (485 / 229), - (57 / 28), 17 / 7, - (206 / 225), - (2 / 75)]\<rparr>"

text \<open>
  The state of a run on the example image once the canvas is cleared, the image fetched
  and the model run: what lines 122 to 147 start from.
\<close>

definition about_to_draw :: "rat state" where
  "about_to_draw =
     \<lparr>isProcessing = True, alerts = [], fetched = [''u''], forwarded = [example_tensor],
      canvas = [Clear, Invalidate]\<rparr>"

text \<open>The example surroundings without a drawing context.\<close>

definition no_context_env :: "rat env" where
  "no_context_env = example_env\<lparr>hasContext := False\<rparr>"

text \<open>Scores with a batch of two, and surroundings without a context whose model returns them.\<close>

definition batch_output :: "rat tensor" where
  "batch_output = \<lparr>shape = [2, 3, 1, 2], data = replicate 12 0\<rparr>"

definition batch_env :: "rat env" where
  "batch_env = example_env\<lparr>hasContext := False, model := Some (\<lambda>t. Inr (Some batch_output))\<rparr>"

section \<open>Auxiliary facts\<close>

subsection \<open>The scan for the first maximum\<close>

lemma argmax_from_spec:
  "(argmax_from xs k best bv = best \<and> (\<forall>x\<in>set xs. x \<le> bv)) \<or>
   (\<exists>m<length xs. argmax_from xs k best bv = k + m \<and> bv < xs ! m \<and>
       (\<forall>p<m. xs ! p < xs ! m) \<and> (\<forall>p<length xs. xs ! p \<le> xs ! m))"
proof (induction xs arbitrary: k best bv)
  case Nil
  then show ?case by simp
next
  case (Cons x xs)
  show ?case
  proof (cases "bv < x")
    case True
    from Cons.IH [of "Suc k" k x]
    consider (keep) "argmax_from xs (Suc k) k x = k" "\<forall>y\<in>set xs. y \<le> x"
      | (move) m where "m < length xs" "argmax_from xs (Suc k) k x = Suc k + m" "x < xs ! m"
          "\<forall>p<m. xs ! p < xs ! m" "\<forall>p<length xs. xs ! p \<le> xs ! m"
      by blast
    then show ?thesis
    proof cases
      case keep
      have "\<forall>p<length (x # xs). (x # xs) ! p \<le> x"
        using keep(2) by (auto simp: nth_Cons split: nat.splits)
      with keep(1) True show ?thesis
        by (intro disjI2 exI [of _ 0]) simp
    next
      case move
      have a: "\<forall>p<Suc m. (x # xs) ! p < xs ! m"
        using move(3,4) by (auto simp: nth_Cons split: nat.splits)
      have b: "\<forall>p<length (x # xs). (x # xs) ! p \<le> xs ! m"
        using move(3,5) by (auto simp: nth_Cons split: nat.splits)
      from move(1,2,3) True a b show ?thesis
        by (intro disjI2 exI [of _ "Suc m"]) auto
    qed
  next
    case False
    from Cons.IH [of "Suc k" best bv]
    consider (keep) "argmax_from xs (Suc k) best bv = best" "\<forall>y\<in>set xs. y \<le> bv"
      | (move) m where "m < length xs" "argmax_from xs (Suc k) best bv = Suc k + m" "bv < xs ! m"
          "\<forall>p<m. xs ! p < xs ! m" "\<forall>p<length xs. xs ! p \<le> xs ! m"
      by blast
    then show ?thesis
    proof cases
      case keep
      with False show ?thesis by (intro disjI1) auto
    next
      case move
      have a: "\<forall>p<Suc m. (x # xs) ! p < xs ! m"
        using move(3,4) False by (auto simp: nth_Cons split: nat.splits)
      have b: "\<forall>p<length (x # xs). (x # xs) ! p \<le> xs ! m"
        using move(3,5) False by (auto simp: nth_Cons split: nat.splits)
      from move(1,2,3) False a b show ?thesis
        by (intro disjI2 exI [of _ "Suc m"]) auto
    qed
  qed
qed

lemma argmax_list_spec:
  assumes "xs \<noteq> []"
  shows "argmax_list xs < length xs \<and>
         (\<forall>p<length xs. xs ! p \<le> xs ! argmax_list xs) \<and>
         (\<forall>p<argmax_list xs. xs ! p < xs ! argmax_list xs)"
proof -
  from assms obtain x rest where xs: "xs = x # rest" by (cases xs) auto
  have r: "argmax_list xs = argmax_from rest 1 0 x" by (simp add: xs argmax_list_def)
  from argmax_from_spec [of rest 1 0 x]
  consider (keep) "argmax_from rest 1 0 x = 0" "\<forall>y\<in>set rest. y \<le> x"
    | (move) m where "m < length rest" "argmax_from rest 1 0 x = 1 + m" "x < rest ! m"
        "\<forall>p<m. rest ! p < rest ! m" "\<forall>p<length rest. rest ! p \<le> rest ! m"
    by (elim disjE exE conjE) simp_all
  then show ?thesis
  proof cases
    case keep
    have a: "argmax_list xs = 0" using r keep(1) by simp
    show ?thesis unfolding a unfolding xs
      using keep(2) by (auto simp: nth_Cons split: nat.splits)
  next
    case move
    have a: "argmax_list xs = Suc m" using r move(2) by simp
    show ?thesis unfolding a unfolding xs
      using move(1,3,4,5) by (auto simp: nth_Cons split: nat.splits)
  qed
qed

lemma offset2_less: "i < h \<Longrightarrow> j < w \<Longrightarrow> i * w + j < h * (w::nat)"
proof -
  assume i: "i < h" and j: "j < w"
  have "i * w + j < i * w + w" using j by simp
  also have "\<dots> = Suc i * w" by simp
  also have "\<dots> \<le> h * w" using i by (intro mult_le_mono1) simp
  finally show ?thesis .
qed

subsection \<open>Offsets and the permutation of axes\<close>

lemma offset3_less:
  assumes "c < k" "i < h" "j < w"
  shows "c * (h * w) + (i * w + j) < k * (h * (w::nat))"
proof -
  have "i * w + j < h * w" using assms(2,3) by (rule offset2_less)
  then have "c * (h * w) + (i * w + j) < Suc c * (h * w)" by simp
  also have "\<dots> \<le> k * (h * w)" using assms(1) by (intro mult_le_mono1) simp
  finally show ?thesis .
qed

lemma unravel3:
  assumes "i < h" "j < w"
  shows "unravel [k, h, w] (c * (h * w) + (i * w + j)) = [c, i, j]"
proof -
  have p: "i * w + j < h * w" using assms by (rule offset2_less)
  have hw: "0 < h * w" using p by linarith
  have a: "(c * (h * w) + (i * w + j)) div (h * w) = c" using p hw by simp
  have b: "(c * (h * w) + (i * w + j)) mod (h * w) = i * w + j" using p by simp
  have d: "(i * w + j) div w = i" using assms(2) by simp
  have e: "(i * w + j) mod w = j" using assms(2) by simp
  have f: "(i * w + j) mod (h * w) = i * w + j" using p by simp
  show ?thesis using assms(2) by (simp add: a b d e f)
qed

lemma permute_201:
  assumes "shape t = [h, w, k]"
  shows "permute [2, 0, 1] t =
     Inr \<lparr>shape = [k, h, w],
          data = map (\<lambda>n. let idx = unravel [k, h, w] n in
                        data t ! ravel [h, w, k] [idx ! 1, idx ! 2, idx ! 0]) [0..<k * (h * w)]\<rparr>"
proof -
  have s: "sort [2, 0, 1::nat] = [0..<3]" by code_simp
  have u: "[0..<3] = [0, 1, 2::nat]" by code_simp
  have l: "length (shape t) = 3" by (simp add: assms)
  show ?thesis
    unfolding permute_def l s by (simp add: assms u)
qed

lemma permute_201_nth:
  assumes "shape t = [h, w, k]" "permute [2, 0, 1] t = Inr t'" "c < k" "i < h" "j < w"
  shows "data t' ! (c * (h * w) + (i * w + j)) = data t ! ((i * w + j) * k + c)"
proof -
  have n: "c * (h * w) + (i * w + j) < k * (h * w)" using assms(3-5) by (rule offset3_less)
  have t': "t' = \<lparr>shape = [k, h, w],
          data = map (\<lambda>n. let idx = unravel [k, h, w] n in
                        data t ! ravel [h, w, k] [idx ! 1, idx ! 2, idx ! 0]) [0..<k * (h * w)]\<rparr>"
    using assms(2) unfolding permute_201 [OF assms(1)] by simp
  have "data t' ! (c * (h * w) + (i * w + j)) =
        (let idx = unravel [k, h, w] (c * (h * w) + (i * w + j)) in
           data t ! ravel [h, w, k] [idx ! 1, idx ! 2, idx ! 0])"
    unfolding t' using n by (simp del: unravel.simps ravel.simps)
  also have "\<dots> = data t ! ravel [h, w, k] [i, j, c]"
    unfolding unravel3 [OF assms(4,5)] by simp
  also have "ravel [h, w, k] [i, j, c] = (i * w + j) * k + c"
    by (simp add: algebra_simps)
  finally show ?thesis .
qed

lemma interleaved_less:
  assumes "c < k" "i < h" "j < w"
  shows "(i * w + j) * k + c < h * w * (k::nat)"
proof -
  have "i * w + j < h * w" using assms(2,3) by (rule offset2_less)
  then have "Suc (i * w + j) \<le> h * w" by simp
  then have "Suc (i * w + j) * k \<le> h * w * k" by (rule mult_le_mono1)
  moreover have "(i * w + j) * k + c < Suc (i * w + j) * k" using assms(1) by simp
  ultimately show ?thesis by linarith
qed

subsection \<open>Steps and their scripts\<close>

lemma follows_scriptD:
  assumes "follows_script m script" and "m s = (r, s')"
  obtains ops rest where "s' = s\<lparr>canvas := canvas s @ ops\<rparr>" and "ops @ rest = script"
    and "(\<exists>x. r = Inr x) \<longleftrightarrow> rest = []"
proof -
  from assms(1) have "\<forall>s r s'. m s = (r, s') \<longrightarrow>
        (\<exists>ops rest. s' = s\<lparr>canvas := canvas s @ ops\<rparr> \<and> ops @ rest = script \<and>
                     ((\<exists>x. r = Inr x) \<longleftrightarrow> rest = []))"
    by (simp only: follows_script_def)
  then have "m s = (r, s') \<longrightarrow>
        (\<exists>ops rest. s' = s\<lparr>canvas := canvas s @ ops\<rparr> \<and> ops @ rest = script \<and>
                     ((\<exists>x. r = Inr x) \<longleftrightarrow> rest = []))"
    by (elim allE)
  with assms(2) have "\<exists>ops rest. s' = s\<lparr>canvas := canvas s @ ops\<rparr> \<and> ops @ rest = script \<and>
                     ((\<exists>x. r = Inr x) \<longleftrightarrow> rest = [])"
    by (rule rev_mp)
  then show thesis
    by (elim exE conjE) (rule that)
qed

lemma script_ret: "follows_script (ret x) []"
  by (simp add: follows_script_def ret_def)

lemma script_throw:
  assumes "script \<noteq> []"
  shows "follows_script (throw e) script"
  unfolding follows_script_def throw_def
proof (intro allI impI)
  fix s r s'
  assume "(Inl e, s) = (r, s' :: 'a state)"
  then have "s' = s\<lparr>canvas := canvas s @ []\<rparr>" "[] @ script = script"
    "(\<exists>x. r = Inr x) \<longleftrightarrow> script = []"
    using assms by auto
  then show "\<exists>ops rest. s' = s\<lparr>canvas := canvas s @ ops\<rparr> \<and> ops @ rest = script \<and>
      ((\<exists>x. r = Inr x) \<longleftrightarrow> rest = [])"
    by blast
qed

lemma script_ctx_call: "follows_script (ctx_call env op) [op]"
  unfolding follows_script_def
proof (intro allI impI)
  fix s r s'
  assume run: "ctx_call env op s = (r, s')"
  show "\<exists>ops rest. s' = s\<lparr>canvas := canvas s @ ops\<rparr> \<and> ops @ rest = [op] \<and>
      ((\<exists>x. r = Inr x) \<longleftrightarrow> rest = [])"
  proof (cases "raises env (canvas s) op")
    case None
    with run have "s' = s\<lparr>canvas := canvas s @ [op]\<rparr>" "[op] @ [] = [op]"
      "(\<exists>x. r = Inr x) \<longleftrightarrow> ([] :: canvas_op list) = []"
      by (auto simp: ctx_call_def)
    then show ?thesis by blast
  next
    case (Some e)
    with run have "s' = s\<lparr>canvas := canvas s @ []\<rparr>" "[] @ [op] = [op]"
      "(\<exists>x. r = Inr x) \<longleftrightarrow> [op] = []"
      by (auto simp: ctx_call_def)
    then show ?thesis by blast
  qed
qed

lemma script_bind:
  assumes m: "follows_script m a" and f: "\<And>x. follows_script (f x) b"
  shows "follows_script (bind m f) (a @ b)"
  unfolding follows_script_def
proof (intro allI impI)
  fix s r s'
  assume run: "bind m f s = (r, s')"
  obtain r1 s1 where m1: "m s = (r1, s1)" by (cases "m s")
  from m m1 obtain ops1 rest1 where
    st1: "s1 = s\<lparr>canvas := canvas s @ ops1\<rparr>"
    and a: "ops1 @ rest1 = a" and ok1: "(\<exists>x. r1 = Inr x) \<longleftrightarrow> rest1 = []"
    by (rule follows_scriptD)
  have fin: "\<exists>ops rest. s' = s\<lparr>canvas := canvas s @ ops\<rparr> \<and> ops @ rest = a @ b \<and>
                     ((\<exists>x. r = Inr x) \<longleftrightarrow> rest = [])"
    if "s' = s\<lparr>canvas := canvas s @ ops\<rparr>" "ops @ rest = a @ b"
       "(\<exists>x. r = Inr x) \<longleftrightarrow> rest = []" for ops rest
    using that by blast
  show "\<exists>ops rest. s' = s\<lparr>canvas := canvas s @ ops\<rparr> \<and> ops @ rest = a @ b \<and>
                     ((\<exists>x. r = Inr x) \<longleftrightarrow> rest = [])"
  proof (cases r1)
    case (Inl e)
    with run m1 have r: "r = Inl e" and s': "s' = s1" by (simp_all add: bind_def)
    from Inl ok1 have ne: "rest1 \<noteq> []" by simp
    show ?thesis
    proof (rule fin [of ops1 "rest1 @ b"])
      show "s' = s\<lparr>canvas := canvas s @ ops1\<rparr>" unfolding s' by (rule st1)
      show "ops1 @ rest1 @ b = a @ b" using a by simp
      show "(\<exists>x. r = Inr x) \<longleftrightarrow> rest1 @ b = []" using r ne by simp
    qed
  next
    case (Inr x)
    with run m1 have fx: "f x s1 = (r, s')" by (simp add: bind_def)
    from Inr ok1 a have a': "ops1 = a" by simp
    from f [of x] fx obtain ops2 rest2 where
      st2: "s' = s1\<lparr>canvas := canvas s1 @ ops2\<rparr>"
      and b: "ops2 @ rest2 = b" and ok2: "(\<exists>x. r = Inr x) \<longleftrightarrow> rest2 = []"
      by (rule follows_scriptD)
    have c1: "canvas s1 = canvas s @ a" by (subst st1) (simp add: a')
    show ?thesis
    proof (rule fin [of "a @ ops2" rest2])
      show "s' = s\<lparr>canvas := canvas s @ a @ ops2\<rparr>"
        by (subst st2, subst c1, subst st1) simp
      show "(a @ ops2) @ rest2 = a @ b" using b by simp
      show "(\<exists>x. r = Inr x) \<longleftrightarrow> rest2 = []" by (rule ok2)
    qed
  qed
qed

lemma script_paintPixel: "follows_script (paintPixel env colors w i j) (pixel_calls colors w i j)"
proof -
  have two: "follows_script (bind (ctx_call env a) (\<lambda>_. ctx_call env b)) [a, b]" for a b
    using script_bind [OF script_ctx_call [of env a], of "\<lambda>_. ctx_call env b" "[b]"]
    by (simp add: script_ctx_call)
  show ?thesis
    by (simp add: paintPixel_def pixel_calls_def script_ret two split: option.splits)
qed

lemma paintRow_unfold:
  "paintRow env colors w i j =
     (if j < w then bind (paintPixel env colors w i j) (\<lambda>_. paintRow env colors w i (Suc j))
      else ret ())"
  by (rule ext) (simp add: paintRow.simps [of env colors w i j] bind_def ret_def
      split: prod.splits sum.splits)

lemma paintRows_unfold:
  "paintRows env colors h w i =
     (if i < h then bind (paintRow env colors w i 0) (\<lambda>_. paintRows env colors h w (Suc i))
      else ret ())"
  by (rule ext) (simp add: paintRows.simps [of env colors h w i] bind_def ret_def
      split: prod.splits sum.splits)

lemma row_calls_step: "j < w \<Longrightarrow> row_calls colors w i j = pixel_calls colors w i j @ row_calls colors w i (Suc j)"
  by (simp add: row_calls_def upt_conv_Cons)

lemma row_calls_done: "\<not> j < w \<Longrightarrow> row_calls colors w i j = []"
  by (simp add: row_calls_def)

lemma rows_calls_step: "i < h \<Longrightarrow> rows_calls colors h w i = row_calls colors w i 0 @ rows_calls colors h w (Suc i)"
  by (simp add: rows_calls_def upt_conv_Cons)

lemma rows_calls_done: "\<not> i < h \<Longrightarrow> rows_calls colors h w i = []"
  by (simp add: rows_calls_def)

lemma script_paintRow: "follows_script (paintRow env colors w i j) (row_calls colors w i j)"
proof (induction "w - j" arbitrary: j)
  case 0
  then have "\<not> j < w" by simp
  then show ?case
    by (subst paintRow_unfold) (simp add: row_calls_done script_ret)
next
  case (Suc n)
  then have j: "j < w" and n: "n = w - Suc j" by simp_all
  show ?case
    by (subst paintRow_unfold)
       (simp add: j row_calls_step script_bind [OF script_paintPixel] Suc.hyps(1) [OF n])
qed

lemma script_paintRows: "follows_script (paintRows env colors h w i) (rows_calls colors h w i)"
proof (induction "h - i" arbitrary: i)
  case 0
  then have "\<not> i < h" by simp
  then show ?case
    by (subst paintRows_unfold) (simp add: rows_calls_done script_ret)
next
  case (Suc n)
  then have i: "i < h" and n: "n = h - Suc i" by simp_all
  show ?case
    by (subst paintRows_unfold)
       (simp add: i rows_calls_step script_bind [OF script_paintRow] Suc.hyps(1) [OF n])
qed

lemma script_clearCanvas: "follows_script (clearCanvas env) (clear_script env)"
  using script_bind [OF script_ctx_call [of env Clear], of "\<lambda>_. ctx_call env Invalidate" "[Invalidate]"]
  by (simp add: clearCanvas_def clear_script_def script_ret script_ctx_call)

lemma script_close: "follows_script (bind (ctx_call env Restore) (\<lambda>_. ctx_call env Invalidate)) [Restore, Invalidate]"
  using script_bind [OF script_ctx_call [of env Restore], of "\<lambda>_. ctx_call env Invalidate" "[Invalidate]"]
  by (simp add: script_ctx_call)

lemma script_paint: 
  "follows_script
     (bind (max_data mx) (\<lambda>colors.
      bind (paintRows env colors h w 0) (\<lambda>_.
      bind (ctx_call env Restore) (\<lambda>_. ctx_call env Invalidate))))
     ((case mx of None \<Rightarrow> [] | Some t \<Rightarrow> rows_calls (data t) h w 0) @ [Restore, Invalidate])"
proof (cases mx)
  case None
  have "bind (max_data None) (\<lambda>colors.
      bind (paintRows env colors h w 0) (\<lambda>_.
      bind (ctx_call env Restore) (\<lambda>_. ctx_call env Invalidate))) = throw TypeError"
    by (rule ext) (simp add: max_data_def bind_def throw_def)
  with None show ?thesis by (simp add: script_throw)
next
  case (Some t)
  have "bind (max_data (Some t)) (\<lambda>colors.
      bind (paintRows env colors h w 0) (\<lambda>_.
      bind (ctx_call env Restore) (\<lambda>_. ctx_call env Invalidate))) =
      bind (paintRows env (data t) h w 0) (\<lambda>_.
      bind (ctx_call env Restore) (\<lambda>_. ctx_call env Invalidate))"
    by (rule ext) (simp add: max_data_def bind_def ret_def)
  with Some show ?thesis
    by (simp add: script_bind [OF script_paintRows script_close])
qed

lemma script_render: "follows_script (render env img mx) (render_script env img mx)"
proof -
  let ?h = "getHeight img" and ?w = "getWidth img"
  let ?f = "newScaleFactor (windowWidth env) ?h ?w"
  let ?tail = "(case mx of None \<Rightarrow> [] | Some t \<Rightarrow> rows_calls (data t) ?h ?w 0) @ [Restore, Invalidate]"
  have a: "follows_script
     (bind (ctx_call env (DrawImage img 0 0 ?w ?h)) (\<lambda>_.
      bind (max_data mx) (\<lambda>colors.
      bind (paintRows env colors ?h ?w 0) (\<lambda>_.
      bind (ctx_call env Restore) (\<lambda>_. ctx_call env Invalidate)))))
     ([DrawImage img 0 0 ?w ?h] @ ?tail)"
    by (rule script_bind [OF script_ctx_call script_paint])
  have b: "follows_script
     (bind (ctx_call env (Scale ?f ?f)) (\<lambda>_.
      bind (ctx_call env (DrawImage img 0 0 ?w ?h)) (\<lambda>_.
      bind (max_data mx) (\<lambda>colors.
      bind (paintRows env colors ?h ?w 0) (\<lambda>_.
      bind (ctx_call env Restore) (\<lambda>_. ctx_call env Invalidate))))))
     ([Scale ?f ?f] @ [DrawImage img 0 0 ?w ?h] @ ?tail)"
    by (rule script_bind [OF script_ctx_call a])
  have c: "follows_script (render env img mx)
     ([Save] @ [Scale ?f ?f] @ [DrawImage img 0 0 ?w ?h] @ ?tail)"
    unfolding render_def Let_def by (rule script_bind [OF script_ctx_call b])
  then show ?thesis by (simp add: render_script_def Let_def)
qed

subsection \<open>A whole run\<close>

lemma render_script_nonempty: "render_script env img mx \<noteq> []"
  by (simp add: render_script_def Let_def)

lemma handleImage_unfold:
  assumes "model env = Some m"
  shows "handleImage env url s =
     (case clearCanvas env (s\<lparr>isProcessing := True\<rparr>) of
        (Inl e, s2) \<Rightarrow> (Inl e, s2)
      | (Inr _, s2) \<Rightarrow>
         (let s3 = s2\<lparr>fetched := fetched s2 @ [url]\<rparr> in
          case fromURL env url of
            Inl e \<Rightarrow> (Inl e, s3)
          | Inr img \<Rightarrow>
             (case preprocess (arith env) img of
                Inl e \<Rightarrow> (Inl e, s3)
              | Inr t \<Rightarrow>
                 (let s4 = s3\<lparr>forwarded := forwarded s3 @ [t]\<rparr> in
                  case m t of
                    Inl e \<Rightarrow> (Inl e, s4)
                  | Inr output \<Rightarrow>
                     (case decode output of
                        Inl e \<Rightarrow> (Inl e, s4)
                      | Inr mx \<Rightarrow>
                         if hasContext env then
                           (case render env img mx s4 of
                              (Inl e, s5) \<Rightarrow> (Inl e, s5)
                            | (Inr _, s5) \<Rightarrow> (Inr (), s5\<lparr>isProcessing := False\<rparr>))
                         else (Inr (), s4\<lparr>isProcessing := False\<rparr>))))))"
  by (simp add: handleImage_def assms bind_def setIsProcessing_def ImageUtil_fromURL_def
      lift_def forward_def ret_def Let_def split: prod.splits sum.splits)

lemma handleImage_script:
  assumes md: "model env = Some m" and run: "handleImage env url s = (r, s')"
  shows "isProcessing s' = (\<exists>e. r = Inl e) \<and>
         (\<exists>ops rest img mx. canvas s' = canvas s @ ops \<and>
             ops @ rest = clear_script env @ render_script env img mx \<and>
             ((\<exists>e. r = Inl e) \<longrightarrow> rest \<noteq> []) \<and>
             (hasContext env \<longrightarrow> r = Inr () \<longrightarrow> rest = []))"
proof -
  define s1 where "s1 = s\<lparr>isProcessing := True\<rparr>"
  define img0 where "img0 = \<lparr>getHeight = 0, getWidth = 0, toBlob = []\<rparr>"
  note hu = run [unfolded handleImage_unfold [OF md], folded s1_def]
  obtain r1 s2 where cl: "clearCanvas env s1 = (r1, s2)" by (cases "clearCanvas env s1")
  from script_clearCanvas [of env] cl obtain ops1 rest1 where
    st2: "s2 = s1\<lparr>canvas := canvas s1 @ ops1\<rparr>"
    and sc1: "ops1 @ rest1 = clear_script env" and ok1: "(\<exists>x. r1 = Inr x) \<longleftrightarrow> rest1 = []"
    by (rule follows_scriptD)
  have p2: "isProcessing s2" and c2: "canvas s2 = canvas s @ ops1"
    by (simp_all add: st2 s1_def)
  have fin: ?thesis
    if "isProcessing s' = (\<exists>e. r = Inl e)" "canvas s' = canvas s @ ops"
      "ops @ rest = clear_script env @ render_script env img mx"
      "(\<exists>e. r = Inl e) \<longrightarrow> rest \<noteq> []" "hasContext env \<longrightarrow> r = Inr () \<longrightarrow> rest = []"
    for ops rest img mx
    using that by blast
  text \<open>A failure before the drawing: the whole drawing is still to come.\<close>
  have early: ?thesis
    if "(Inl e, s'') = (r, s')" "isProcessing s''" "canvas s'' = canvas s @ clear_script env"
    for e s''
    by (rule fin [of "clear_script env" "render_script env img0 None" img0 None])
       (use that in \<open>auto simp: render_script_nonempty\<close>)
  show ?thesis
  proof (cases r1)
    case (Inl e)
    with hu cl have "r = Inl e" "s' = s2" by simp_all
    moreover from Inl ok1 have "rest1 \<noteq> []" by simp
    ultimately show ?thesis using p2 c2 sc1
      by (intro fin [of ops1 "rest1 @ render_script env img0 None" img0 None]) simp_all
  next
    case (Inr u)
    with ok1 sc1 have ops1: "ops1 = clear_script env" by simp
    define s3 where "s3 = s2\<lparr>fetched := fetched s2 @ [url]\<rparr>"
    have p3: "isProcessing s3" and c3: "canvas s3 = canvas s @ clear_script env"
      using p2 c2 ops1 by (simp_all add: s3_def)
    note hu3 = hu [unfolded cl Inr prod.case sum.case Let_def, folded s3_def]
    show ?thesis
    proof (cases "fromURL env url")
      case (Inl e)
      from hu3 [unfolded Inl sum.case] show ?thesis using p3 c3 by (rule early)
    next
      case img: (Inr img)
      note hu4 = hu3 [unfolded img sum.case]
      show ?thesis
      proof (cases "preprocess (arith env) img")
        case (Inl e)
        from hu4 [unfolded Inl sum.case] show ?thesis using p3 c3 by (rule early)
      next
        case t: (Inr t)
        define s4 where "s4 = s3\<lparr>forwarded := forwarded s3 @ [t]\<rparr>"
        have p4: "isProcessing s4" and c4: "canvas s4 = canvas s @ clear_script env"
          using p3 c3 by (simp_all add: s4_def)
        note hu5 = hu4 [unfolded t sum.case, folded s4_def]
        show ?thesis
        proof (cases "m t")
          case (Inl e)
          from hu5 [unfolded Inl sum.case] show ?thesis using p4 c4 by (rule early)
        next
          case out: (Inr outp)
          note hu6 = hu5 [unfolded out sum.case]
          show ?thesis
          proof (cases "decode outp")
            case (Inl e)
            from hu6 [unfolded Inl sum.case] show ?thesis using p4 c4 by (rule early)
          next
            case mx: (Inr mx)
            note hu7 = hu6 [unfolded mx sum.case]
            show ?thesis
            proof (cases "hasContext env")
              case False
              with hu7 have "r = Inr ()" "s' = s4\<lparr>isProcessing := False\<rparr>" by simp_all
              with c4 False show ?thesis
                by (intro fin [of "clear_script env" "render_script env img0 None" img0 None])
                   simp_all
            next
              case True
              obtain r5 s5 where rn: "render env img mx s4 = (r5, s5)"
                by (cases "render env img mx s4")
              from script_render [of env img mx] rn obtain ops5 rest5 where
                st5: "s5 = s4\<lparr>canvas := canvas s4 @ ops5\<rparr>"
                and sc5: "ops5 @ rest5 = render_script env img mx"
                and ok5: "(\<exists>x. r5 = Inr x) \<longleftrightarrow> rest5 = []"
                by (rule follows_scriptD)
              have p5: "isProcessing s5" and c5: "canvas s5 = canvas s4 @ ops5"
                using p4 by (simp_all add: st5)
              show ?thesis
              proof (cases r5)
                case (Inl e)
                with hu7 True rn have "r = Inl e" "s' = s5" by simp_all
                moreover from Inl ok5 have "rest5 \<noteq> []" by simp
                ultimately show ?thesis using p5 c5 c4 sc5
                  by (intro fin [of "clear_script env @ ops5" rest5 img mx]) simp_all
              next
                case (Inr v)
                with hu7 True rn have "r = Inr ()" "s' = s5\<lparr>isProcessing := False\<rparr>"
                  by simp_all
                moreover from Inr ok5 have "rest5 = []" by simp
                ultimately show ?thesis using c5 c4 sc5
                  by (intro fin [of "clear_script env @ ops5" rest5 img mx]) simp_all
              qed
            qed
          qed
        qed
      qed
    qed
  qed
qed

subsection \<open>Runs in which no call is rejected\<close>

lemma ctx_call_ok:
  "raises env = (\<lambda>_ _. None) \<Longrightarrow> ctx_call env op s = (Inr (), s\<lparr>canvas := canvas s @ [op]\<rparr>)"
  by (simp add: ctx_call_def)

lemma paintPixel_ok:
  assumes "raises env = (\<lambda>_ _. None)"
  shows "paintPixel env colors w i j s = (Inr (), s\<lparr>canvas := canvas s @ pixel_calls colors w i j\<rparr>)"
  by (simp add: paintPixel_def pixel_calls_def bind_def ret_def ctx_call_ok [OF assms]
      split: option.splits)

lemma paintRow_ok:
  assumes "raises env = (\<lambda>_ _. None)"
  shows "paintRow env colors w i j s = (Inr (), s\<lparr>canvas := canvas s @ row_calls colors w i j\<rparr>)"
proof (induction "w - j" arbitrary: j s)
  case 0
  then have "\<not> j < w" by simp
  then show ?case
    by (subst paintRow.simps) (simp add: row_calls_done)
next
  case (Suc n)
  then have j: "j < w" and n: "n = w - Suc j" by simp_all
  show ?case
    by (subst paintRow.simps)
       (simp add: j row_calls_step paintPixel_ok [OF assms] Suc.hyps(1) [OF n])
qed

lemma paintRows_ok:
  assumes "raises env = (\<lambda>_ _. None)"
  shows "paintRows env colors h w i s = (Inr (), s\<lparr>canvas := canvas s @ rows_calls colors h w i\<rparr>)"
proof (induction "h - i" arbitrary: i s)
  case 0
  then have "\<not> i < h" by simp
  then show ?case
    by (subst paintRows.simps) (simp add: rows_calls_done)
next
  case (Suc n)
  then have i: "i < h" and n: "n = h - Suc i" by simp_all
  show ?case
    by (subst paintRows.simps)
       (simp add: i rows_calls_step paintRow_ok [OF assms] Suc.hyps(1) [OF n])
qed

lemma render_ok:
  assumes "raises env = (\<lambda>log op. None)"
  shows "render env img (Some t) s =
           (Inr (), s\<lparr>canvas := canvas s @ render_script env img (Some t)\<rparr>)"
  by (simp add: render_def bind_def max_data_def ret_def Let_def render_script_def
      ctx_call_ok [OF assms] paintRows_ok [OF assms])

subsection \<open>The loops against the specified overlay\<close>

lemma pixel_calls_overlay:
  assumes "length colors = h * w" "\<forall>k<h * w. 0 \<le> colors ! k" "i < h" "j < w"
  shows "pixel_calls colors w i j = overlay_at colors w i j"
proof -
  have p: "i * w + j < h * w" using assms(3,4) by (rule offset2_less)
  with assms(2) have "0 \<le> colors ! (i * w + j)" by blast
  then have "(0 < colors ! (i * w + j)) = (colors ! (i * w + j) \<noteq> 0)" by linarith
  with p assms(1) show ?thesis
    by (simp add: pixel_calls_def overlay_at_def colors_at_def)
qed

lemma rows_calls_overlay:
  assumes "length colors = h * w" "\<forall>k<h * w. 0 \<le> colors ! k"
  shows "rows_calls colors h w 0 = spec_overlay colors h w"
proof -
  have "row_calls colors w i 0 = concat (map (\<lambda>j. overlay_at colors w i j) [0..<w])"
    if "i < h" for i
    unfolding row_calls_def
    by (rule arg_cong [where f = concat], rule map_cong)
       (simp_all add: pixel_calls_overlay [OF assms that])
  then show ?thesis
    unfolding rows_calls_def spec_overlay_def
    by (intro arg_cong [where f = concat] map_cong) simp_all
qed

lemma count_concat: "count_list (concat xss) x = sum_list (map (\<lambda>xs. count_list xs x) xss)"
  by (induction xss) simp_all

lemma sum_indicator: "sum_list (map (\<lambda>k. if k = j then c else 0) [0..<n]) = (if j < n then c else (0::nat))"
  by (induction n) auto

lemma count_overlay:
  assumes "i < h" "j < w"
  shows "count_list (spec_overlay msk h w) (FillRect j i 1 1) =
         (if msk ! (i * w + j) \<noteq> 0 then 1 else 0)"
proof -
  let ?c = "if msk ! (i * w + j) \<noteq> 0 then 1 else 0 :: nat"
  have px: "count_list (overlay_at msk w i' j') (FillRect j i 1 1) =
            (if j' = j then (if i' = i then ?c else 0) else 0)" for i' j'
    by (simp add: overlay_at_def)
  have row: "count_list (concat (map (\<lambda>j. overlay_at msk w i' j) [0..<w])) (FillRect j i 1 1) =
             (if i' = i then ?c else 0)" for i'
  proof -
    have "count_list (concat (map (\<lambda>j. overlay_at msk w i' j) [0..<w])) (FillRect j i 1 1) =
          sum_list (map (\<lambda>j'. if j' = j then (if i' = i then ?c else 0) else 0) [0..<w])"
      by (subst count_concat) (simp only: map_map comp_def px)
    also have "\<dots> = (if j < w then (if i' = i then ?c else 0) else 0)"
      by (rule sum_indicator)
    finally show ?thesis using assms(2) by simp
  qed
  have "count_list (spec_overlay msk h w) (FillRect j i 1 1) =
        sum_list (map (\<lambda>i'. if i' = i then ?c else 0) [0..<h])"
    unfolding spec_overlay_def by (subst count_concat) (simp only: map_map comp_def row)
  also have "\<dots> = (if i < h then ?c else 0)"
    by (rule sum_indicator)
  finally show ?thesis using assms(1) by simp
qed

lemma overlay_zero:
  assumes "\<forall>k<h * w. msk ! k = 0"
  shows "spec_overlay msk h w = []"
proof -
  have "overlay_at msk w i j = []" if "i < h" "j < w" for i j
    using assms offset2_less [OF that] by (simp add: overlay_at_def)
  then show ?thesis by (simp add: spec_overlay_def)
qed

subsection \<open>The calls of the paint loop only paint\<close>

lemma pixel_calls_paint: "\<forall>op\<in>set (pixel_calls colors w i j). is_paint op"
  by (auto simp: pixel_calls_def split: option.splits)

lemma rows_calls_paint: "\<forall>op\<in>set (rows_calls colors h w i). is_paint op"
  using pixel_calls_paint by (fastforce simp: rows_calls_def row_calls_def)

lemma paint_not_close: "is_paint op \<Longrightarrow> op \<noteq> Restore \<and> op \<noteq> Invalidate \<and> op \<noteq> Save"
  by (cases op) simp_all

subsection \<open>The draw sequence between save and restore\<close>

lemma render_split:
  "render env img mx =
     bind (ctx_call env Save) (\<lambda>_.
     bind (draw_sequence env img mx) (\<lambda>_.
     bind (ctx_call env Restore) (\<lambda>_.
     ctx_call env Invalidate)))"
  by (rule ext)
     (simp add: render_def draw_sequence_def Let_def bind_def split: prod.splits sum.splits)

lemma script_calls:
  assumes "follows_script m script" and "m s = (r, s')"
  obtains ops where "s' = s\<lparr>canvas := canvas s @ ops\<rparr>" and "set ops \<subseteq> set script"
proof -
  from assms obtain ops rest where st: "s' = s\<lparr>canvas := canvas s @ ops\<rparr>"
    and sc: "ops @ rest = script"
    by (rule follows_scriptD)
  from sc have "set ops \<subseteq> set script" by auto
  with st show thesis by (rule that)
qed

lemma script_draw_sequence:
  "follows_script (draw_sequence env img mx)
     ([Scale (newScaleFactor (windowWidth env) (getHeight img) (getWidth img))
             (newScaleFactor (windowWidth env) (getHeight img) (getWidth img)),
       DrawImage img 0 0 (getWidth img) (getHeight img)] @
      (case mx of None \<Rightarrow> [Clear] | Some t \<Rightarrow> rows_calls (data t) (getHeight img) (getWidth img) 0))"
proof -
  let ?h = "getHeight img" and ?w = "getWidth img"
  let ?f = "newScaleFactor (windowWidth env) ?h ?w"
  let ?tail = "case mx of None \<Rightarrow> [Clear] | Some t \<Rightarrow> rows_calls (data t) ?h ?w 0"
  have p: "follows_script (bind (max_data mx) (\<lambda>colors. paintRows env colors ?h ?w 0)) ?tail"
  proof (cases mx)
    case None
    have "bind (max_data None) (\<lambda>colors. paintRows env colors ?h ?w 0) = throw TypeError"
      by (rule ext) (simp add: max_data_def bind_def throw_def)
    with None show ?thesis by (simp add: script_throw)
  next
    case (Some t)
    have "bind (max_data (Some t)) (\<lambda>colors. paintRows env colors ?h ?w 0) =
          paintRows env (data t) ?h ?w 0"
      by (rule ext) (simp add: max_data_def bind_def ret_def)
    with Some show ?thesis by (simp add: script_paintRows)
  qed
  have a: "follows_script
     (bind (ctx_call env (DrawImage img 0 0 ?w ?h)) (\<lambda>_.
      bind (max_data mx) (\<lambda>colors. paintRows env colors ?h ?w 0)))
     ([DrawImage img 0 0 ?w ?h] @ ?tail)"
    by (rule script_bind [OF script_ctx_call p])
  have "follows_script (draw_sequence env img mx) ([Scale ?f ?f] @ [DrawImage img 0 0 ?w ?h] @ ?tail)"
    unfolding draw_sequence_def Let_def by (rule script_bind [OF script_ctx_call a])
  then show ?thesis by simp
qed

lemma draw_sequence_calls:
  assumes "draw_sequence env img mx s = (r, s')"
  obtains ops where "s' = s\<lparr>canvas := canvas s @ ops\<rparr>"
    and "Save \<notin> set ops" and "Restore \<notin> set ops"
proof -
  from script_draw_sequence assms obtain ops where st: "s' = s\<lparr>canvas := canvas s @ ops\<rparr>"
    and sub: "set ops \<subseteq> set
     ([Scale (newScaleFactor (windowWidth env) (getHeight img) (getWidth img))
             (newScaleFactor (windowWidth env) (getHeight img) (getWidth img)),
       DrawImage img 0 0 (getWidth img) (getHeight img)] @
      (case mx of None \<Rightarrow> [Clear] | Some t \<Rightarrow> rows_calls (data t) (getHeight img) (getWidth img) 0))"
    by (rule script_calls)
  have "Save \<notin> set (case mx of None \<Rightarrow> [Clear] | Some t \<Rightarrow> rows_calls (data t) (getHeight img) (getWidth img) 0)"
    and "Restore \<notin> set (case mx of None \<Rightarrow> [Clear] | Some t \<Rightarrow> rows_calls (data t) (getHeight img) (getWidth img) 0)"
    using rows_calls_paint paint_not_close by (fastforce split: option.splits)+
  with sub have "Save \<notin> set ops" "Restore \<notin> set ops" by auto
  with st show thesis by (rule that)
qed

lemma save_logged:
  assumes "ctx_call env Save s4 = (Inr (), s5)"
  shows "s5 = s4\<lparr>canvas := canvas s4 @ [Save]\<rparr>"
  using assms by (simp add: ctx_call_def split: option.splits)

lemma render_after_save:
  assumes "ctx_call env Save s4 = (Inr (), s5)"
  shows "render env img mx s4 =
           (case draw_sequence env img mx s5 of
              (Inl e, s6) \<Rightarrow> (Inl e, s6)
            | (Inr _, s6) \<Rightarrow>
               (case raises env (canvas s6) Restore of
                  Some e \<Rightarrow> (Inl e, s6)
                | None \<Rightarrow>
                   (case raises env (canvas s6 @ [Restore]) Invalidate of
                      Some e \<Rightarrow> (Inl e, s6\<lparr>canvas := canvas s6 @ [Restore]\<rparr>)
                    | None \<Rightarrow> (Inr (), s6\<lparr>canvas := canvas s6 @ [Restore, Invalidate]\<rparr>))))"
proof -
  obtain r s6 where d: "draw_sequence env img mx s5 = (r, s6)"
    by (cases "draw_sequence env img mx s5")
  show ?thesis
  proof (cases r)
    case (Inl e)
    with d show ?thesis by (simp add: render_split bind_def assms)
  next
    case (Inr u)
    show ?thesis
    proof (cases "raises env (canvas s6) Restore")
      case (Some e)
      then have rs: "ctx_call env Restore s6 = (Inl e, s6)" by (simp add: ctx_call_def)
      from d Inr Some show ?thesis by (simp add: render_split bind_def assms rs)
    next
      case None
      then have rs: "ctx_call env Restore s6 = (Inr (), s6\<lparr>canvas := canvas s6 @ [Restore]\<rparr>)"
        by (simp add: ctx_call_def)
      show ?thesis
      proof (cases "raises env (canvas s6 @ [Restore]) Invalidate")
        case (Some e)
        then have iv: "ctx_call env Invalidate (s6\<lparr>canvas := canvas s6 @ [Restore]\<rparr>) =
            (Inl e, s6\<lparr>canvas := canvas s6 @ [Restore]\<rparr>)"
          by (simp add: ctx_call_def)
        from d Inr None Some show ?thesis by (simp add: render_split bind_def assms rs iv)
      next
        case inv: None
        then have iv: "ctx_call env Invalidate (s6\<lparr>canvas := canvas s6 @ [Restore]\<rparr>) =
            (Inr (), s6\<lparr>canvas := canvas s6 @ [Restore, Invalidate]\<rparr>)"
          by (simp add: ctx_call_def)
        from d Inr None inv show ?thesis by (simp add: render_split bind_def assms rs iv)
      qed
    qed
  qed
qed

lemma handleImage_reaches_render:
  assumes "model env = Some m" and "hasContext env"
    and "clearCanvas env (s\<lparr>isProcessing := True\<rparr>) = (Inr (), s2)"
    and "fromURL env imageUrl = Inr img"
    and "preprocess (arith env) img = Inr t"
    and "m t = Inr outp"
    and "decode outp = Inr mx"
  shows "handleImage env imageUrl s =
           (case render env img mx (s2\<lparr>fetched := fetched s2 @ [imageUrl],
                                        forwarded := forwarded s2 @ [t]\<rparr>) of
              (Inl e, s5) \<Rightarrow> (Inl e, s5)
            | (Inr _, s5) \<Rightarrow> (Inr (), s5\<lparr>isProcessing := False\<rparr>))"
  by (simp add: handleImage_unfold [OF assms(1)] assms(2-7) Let_def)

subsection \<open>A failing run\<close>

lemma failing_run_keeps_flag:
  assumes "handleImage env imageUrl s = (Inl e, s')"
  shows "isProcessing s'"
proof (cases "model env")
  case None
  with assms show ?thesis by (simp add: handleImage_def alert_def)
next
  case (Some m)
  from handleImage_script [OF Some assms] show ?thesis by simp
qed

section \<open>The claims\<close>

text \<open>
  C1. For a model output of shape \<open>[1, numClasses, H, W]\<close> (with at least one class),
  line 119 yields a mask of shape \<open>[H, W]\<close> whose entry at \<open>(i, j)\<close> is a class index
  \<open>r\<close> with \<open>output[r][i][j]\<close> maximal, and every class below \<open>r\<close> scores strictly
  less there: ties go to the lowest class index. The mask is a function of the tensor
  alone, so repeated calls on the same tensor give the same mask.
\<close>

theorem C1_decode_first_maximum:
  assumes sh: "shape out = [1, C, H, W]" and len: "length (data out) = C * H * W" and C: "0 < C"
  shows "\<exists>m. decode (Some out) = Inr (Some m) \<and> shape m = [H, W] \<and> length (data m) = H * W \<and>
           (\<forall>i<H. \<forall>j<W. \<exists>r<C. tensor_at m [i, j] = int r \<and>
               (\<forall>c<C. tensor_at out [0, c, i, j] \<le> tensor_at out [0, r, i, j]) \<and>
               (\<forall>c<r. tensor_at out [0, c, i, j] < tensor_at out [0, r, i, j]))"
proof -
  define m where "m = \<lparr>shape = [H, W],
     data = map (\<lambda>p. int (argmax_list (map (\<lambda>k. data out ! (k * (H * W) + p)) [0..<C]))) [0..<H * W]\<rparr>"
  have dec: "decode (Some out) = Inr (Some m)"
    using sh C by (simp add: decode_def squeeze_argmax_def squeeze0_def argmax0_def m_def)
  have at_out: "tensor_at out [0, c, i, j] = data out ! (c * (H * W) + (i * W + j))" for c i j
    by (simp add: tensor_at_def sh add.assoc)
  have px: "\<exists>r<C. tensor_at m [i, j] = int r \<and>
               (\<forall>c<C. tensor_at out [0, c, i, j] \<le> tensor_at out [0, r, i, j]) \<and>
               (\<forall>c<r. tensor_at out [0, c, i, j] < tensor_at out [0, r, i, j])"
    if i: "i < H" and j: "j < W" for i j
  proof -
    let ?p = "i * W + j"
    define xs where "xs = map (\<lambda>k. data out ! (k * (H * W) + ?p)) [0..<C]"
    have p: "?p < H * W" using i j by (rule offset2_less)
    have at_m: "tensor_at m [i, j] = int (argmax_list xs)"
      using p by (simp add: tensor_at_def m_def xs_def)
    have len_xs: "length xs = C" by (simp add: xs_def)
    have nth_xs: "xs ! c = tensor_at out [0, c, i, j]" if "c < C" for c
      using that by (simp add: xs_def at_out)
    have ne: "xs \<noteq> []" using C len_xs by auto
    note spec = argmax_list_spec [OF ne, unfolded len_xs]
    from spec have r: "argmax_list xs < C" by blast
    show ?thesis
    proof (intro exI [of _ "argmax_list xs"] conjI allI impI)
      show "argmax_list xs < C" by (rule r)
      show "tensor_at m [i, j] = int (argmax_list xs)" by (rule at_m)
    next
      fix c assume c: "c < C"
      from spec c have "xs ! c \<le> xs ! argmax_list xs" by blast
      then show "tensor_at out [0, c, i, j] \<le> tensor_at out [0, argmax_list xs, i, j]"
        using c r by (simp add: nth_xs)
    next
      fix c assume c: "c < argmax_list xs"
      from spec c have "xs ! c < xs ! argmax_list xs" by blast
      then show "tensor_at out [0, c, i, j] < tensor_at out [0, argmax_list xs, i, j]"
        using c r by (simp add: nth_xs)
    qed
  qed
  show ?thesis
    using dec px by (intro exI [of _ m]) (simp add: m_def)
qed

theorem C1_decode_first_maximum_witness:
  "(\<exists>m. decode (Some example_output) = Inr (Some m) \<and> shape m = [1, 2] \<and>
        length (data m) = 1 * 2 \<and>
        (\<forall>i<1. \<forall>j<2. \<exists>r<3. tensor_at m [i, j] = int r \<and>
            (\<forall>c<3. tensor_at example_output [0, c, i, j] \<le> tensor_at example_output [0, r, i, j]) \<and>
            (\<forall>c<r. tensor_at example_output [0, c, i, j] < tensor_at example_output [0, r, i, j]))) \<and>
   decode (Some example_output) = Inr (Some \<lparr>shape = [1, 2], data = [0, 2]\<rparr>)"
proof (rule conjI)
  show "\<exists>m. decode (Some example_output) = Inr (Some m) \<and> shape m = [1, 2] \<and>
        length (data m) = 1 * 2 \<and>
        (\<forall>i<1. \<forall>j<2. \<exists>r<3. tensor_at m [i, j] = int r \<and>
            (\<forall>c<3. tensor_at example_output [0, c, i, j] \<le> tensor_at example_output [0, r, i, j]) \<and>
            (\<forall>c<r. tensor_at example_output [0, c, i, j] < tensor_at example_output [0, r, i, j]))"
    by (rule C1_decode_first_maximum) (simp_all add: example_output_def)
  show "decode (Some example_output) = Inr (Some \<lparr>shape = [1, 2], data = [0, 2]\<rparr>)"
    by code_simp
qed

text \<open>
  C2. For an image of height \<open>H > 0\<close> and width \<open>W > 0\<close> whose pixel buffer holds three
  channels for each pixel, lines 104 to 115 yield a tensor of shape \<open>[1, 3, H, W]\<close>
  whose entry at \<open>[0, c, i, j]\<close> is the byte of channel \<open>c\<close> of pixel \<open>(i, j)\<close> of the
  \<open>[H, W, 3]\<close> buffer, cast to float, divided by 255, less \<open>mean[c]\<close>, divided by
  \<open>std[c]\<close>, with the means and deviations of the source. This holds for every
  arithmetic the runtime may have.
\<close>

theorem C2_preprocess_normalized:
  fixes ar :: "'f arith"
  assumes H: "0 < getHeight img" and W: "0 < getWidth img"
    and len: "length (toBlob img) = getHeight img * getWidth img * 3"
  shows "\<exists>t. preprocess ar img = Inr t \<and>
           shape t = [1, 3, getHeight img, getWidth img] \<and>
           length (data t) = 3 * (getHeight img * getWidth img) \<and>
           (\<forall>c<3. \<forall>i<getHeight img. \<forall>j<getWidth img.
              tensor_at t [0, c, i, j] =
                fdiv ar
                  (fsub ar
                     (fdiv ar (cast ar (toBlob img ! ((i * getWidth img + j) * 3 + c))) (lit ar 255))
                     (lit ar ([485 / 1000, 456 / 1000, 406 / 1000] ! c)))
                  (lit ar ([229 / 1000, 224 / 1000, 225 / 1000] ! c)))"
proof -
  define h where "h = getHeight img"
  define w where "w = getWidth img"
  define mean where "mean = map (lit ar) [485 / 1000, 456 / 1000, 406 / 1000]"
  define std where "std = map (lit ar) [229 / 1000, 224 / 1000, 225 / 1000]"
  define t0 where "t0 = div_scalar ar 255 (to_float32 ar \<lparr>shape = [h, w, 3], data = toBlob img\<rparr>)"
  have sh0: "shape t0 = [h, w, 3]"
    and d0: "data t0 = map (\<lambda>v. fdiv ar (cast ar v) (lit ar 255)) (toBlob img)"
    by (simp_all add: t0_def div_scalar_def to_float32_def)
  define t1 where "t1 = \<lparr>shape = [3, h, w],
          data = map (\<lambda>n. let idx = unravel [3, h, w] n in
                        data t0 ! ravel [h, w, 3] [idx ! 1, idx ! 2, idx ! 0]) [0..<3 * (h * w)]\<rparr>"
  have p1: "permute [2, 0, 1] t0 = Inr t1"
    unfolding t1_def by (rule permute_201 [OF sh0])
  have sh1: "shape t1 = [3, h, w]" and l1: "length (data t1) = 3 * (h * w)"
    by (simp_all add: t1_def)
  define t2 where "t2 = \<lparr>shape = [3, h, w],
          data = map (\<lambda>n. let ch = n div (h * w) in
                        fdiv ar (fsub ar (data t1 ! n) (mean ! ch)) (std ! ch)) [0..<3 * (h * w)]\<rparr>"
  have n2: "transforms_normalize ar mean std t1 = Inr t2"
    by (simp add: transforms_normalize_def sh1 l1 t2_def mean_def std_def)
  have fb: "fromBlob (toBlob img) [h, w, 3] = Inr \<lparr>shape = [h, w, 3], data = toBlob img\<rparr>"
    using len by (simp add: fromBlob_def h_def w_def)
  have pre: "preprocess ar img = Inr (unsqueeze0 t2)"
    unfolding preprocess_def Let_def
    unfolding h_def [symmetric] w_def [symmetric] mean_def [symmetric] std_def [symmetric]
    by (simp only: fb sum.case t0_def [symmetric] p1 n2)
  have elt: "tensor_at (unsqueeze0 t2) [0, c, i, j] =
                fdiv ar
                  (fsub ar
                     (fdiv ar (cast ar (toBlob img ! ((i * w + j) * 3 + c))) (lit ar 255))
                     (lit ar ([485 / 1000, 456 / 1000, 406 / 1000] ! c)))
                  (lit ar ([229 / 1000, 224 / 1000, 225 / 1000] ! c))"
    if c: "c < 3" and i: "i < h" and j: "j < w" for c i j
  proof -
    let ?n = "c * (h * w) + (i * w + j)"
    have n: "?n < 3 * (h * w)" using c i j by (rule offset3_less)
    have p: "i * w + j < h * w" using i j by (rule offset2_less)
    have hw: "0 < h * w" using p by linarith
    have ch: "?n div (h * w) = c" using p hw by simp
    have src: "(i * w + j) * 3 + c < length (toBlob img)"
      using interleaved_less [OF c i j] len by (simp add: h_def w_def)
    have "tensor_at (unsqueeze0 t2) [0, c, i, j] = data t2 ! ?n"
      by (simp add: tensor_at_def unsqueeze0_def t2_def add.assoc)
    also have "\<dots> = fdiv ar (fsub ar (data t1 ! ?n) (mean ! c)) (std ! c)"
      unfolding t2_def using n by (simp add: ch)
    also have "data t1 ! ?n = data t0 ! ((i * w + j) * 3 + c)"
      using sh0 p1 c i j by (rule permute_201_nth)
    also have "\<dots> = fdiv ar (cast ar (toBlob img ! ((i * w + j) * 3 + c))) (lit ar 255)"
      using src by (simp add: d0)
    also have "mean ! c = lit ar ([485 / 1000, 456 / 1000, 406 / 1000] ! c)"
      unfolding mean_def by (rule nth_map) (use c in simp)
    also have "std ! c = lit ar ([229 / 1000, 224 / 1000, 225 / 1000] ! c)"
      unfolding std_def by (rule nth_map) (use c in simp)
    finally show ?thesis .
  qed
  have "shape (unsqueeze0 t2) = [1, 3, h, w]"
    and "length (data (unsqueeze0 t2)) = 3 * (h * w)"
    by (simp_all add: unsqueeze0_def t2_def)
  with pre elt show ?thesis
    unfolding h_def w_def by (intro exI [of _ "unsqueeze0 t2"]) simp
qed

theorem C2_preprocess_normalized_witness:
  "(\<exists>t. preprocess example_arith example_image = Inr t \<and>
        shape t = [1, 3, getHeight example_image, getWidth example_image] \<and>
        length (data t) = 3 * (getHeight example_image * getWidth example_image) \<and>
        (\<forall>c<3. \<forall>i<getHeight example_image. \<forall>j<getWidth example_image.
           tensor_at t [0, c, i, j] =
             fdiv example_arith
               (fsub example_arith
                  (fdiv example_arith
                     (cast example_arith (toBlob example_image ! ((i * getWidth example_image + j) * 3 + c)))
                     (lit example_arith 255))
                  (lit example_arith ([485 / 1000, 456 / 1000, 406 / 1000] ! c)))
               (lit example_arith ([229 / 1000, 224 / 1000, 225 / 1000] ! c)))) \<and>
   preprocess example_arith example_image =
     Inr \<lparr>shape = [1, 3, 1, 2],
          data = [515 / 229, - (485 / 229), - (57 / 28), 17 / 7, - (206 / 225), - (2 / 75)]\<rparr>"
proof (rule conjI)
  show "\<exists>t. preprocess example_arith example_image = Inr t \<and>
        shape t = [1, 3, getHeight example_image, getWidth example_image] \<and>
        length (data t) = 3 * (getHeight example_image * getWidth example_image) \<and>
        (\<forall>c<3. \<forall>i<getHeight example_image. \<forall>j<getWidth example_image.
           tensor_at t [0, c, i, j] =
             fdiv example_arith
               (fsub example_arith
                  (fdiv example_arith
                     (cast example_arith (toBlob example_image ! ((i * getWidth example_image + j) * 3 + c)))
                     (lit example_arith 255))
                  (lit example_arith ([485 / 1000, 456 / 1000, 406 / 1000] ! c)))
               (lit example_arith ([229 / 1000, 224 / 1000, 225 / 1000] ! c)))"
    by (rule C2_preprocess_normalized) (simp_all add: example_image_def)
  show "preprocess example_arith example_image =
     Inr \<lparr>shape = [1, 3, 1, 2],
          data = [515 / 229, - (485 / 229), - (57 / 28), 17 / 7, - (206 / 225), - (2 / 75)]\<rparr>"
    by code_simp
qed

text \<open>
  C3, at a failing input. The claim wants a failed step to end the run with
  \<open>isProcessing\<close> reset. In the code, with the image loader rejecting the fetch, the run
  ends with that error after the canvas has been cleared, nothing is painted, and
  \<open>isProcessing\<close> is still true: line 93 sets the flag, lines 83 to 151 have no
  handler, and line 150 is not reached, although line 75 calls the flag the indicator
  of an inference in flight.
\<close>

theorem C3_failed_fetch_keeps_flag:
  "handleImage offline_env ''u'' idle =
     (Inl (External ''offline''),
      \<lparr>isProcessing = True, alerts = [], fetched = [''u''], forwarded = [],
       canvas = [Clear, Invalidate]\<rparr>)"
  by code_simp

text \<open>
  C4, as stated, fails. While \<open>isProcessing\<close> is true the view still offers the button,
  and a press is not rejected: the handler fetches the selected image and runs the
  model.
\<close>

theorem C4_counterexample:
  "isProcessing busy \<and>
   segment_button (ImageSegmentation_view example_env busy) \<and>
   fst (onPress example_env 0 busy) = Inr () \<and>
   fetched (snd (onPress example_env 0 busy)) = [IMAGES ! 0] \<and>
   length (forwarded (snd (onPress example_env 0 busy))) = 1"
  by code_simp

text \<open>
  C4, amended. \<open>isProcessing\<close> is an indicator only: with the model ready, the button is
  offered whatever the flag says, and a press while the flag is true runs
  \<^verbatim>\<open>handleImage\<close> exactly as a press while it is false does; in particular, once the
  canvas has been cleared, the image is fetched. Nothing is queued and nothing is
  cancelled.
\<close>

theorem C4_flag_not_consulted:
  assumes "isReady env" and "model env = Some m"
  shows "segment_button (ImageSegmentation_view env (s\<lparr>isProcessing := True\<rparr>)) \<and>
         onPress env k (s\<lparr>isProcessing := True\<rparr>) =
           handleImage env (IMAGES ! k) (s\<lparr>isProcessing := False\<rparr>) \<and>
         (\<forall>s1. clearCanvas env (s\<lparr>isProcessing := True\<rparr>) = (Inr (), s1) \<longrightarrow>
            fetched (snd (onPress env k (s\<lparr>isProcessing := True\<rparr>))) = fetched s1 @ [IMAGES ! k])"
proof -
  have same: "handleImage env url (s\<lparr>isProcessing := b\<rparr>) = handleImage env url s" for url b
    by (simp add: handleImage_unfold [OF assms(2)])
  have btn: "segment_button (ImageSegmentation_view env (s\<lparr>isProcessing := True\<rparr>))"
    using assms(1) by (simp add: ImageSegmentation_view_def)
  have press: "onPress env k (s\<lparr>isProcessing := True\<rparr>) = handleImage env (IMAGES ! k) s"
    using btn by (simp add: onPress_def same)
  have fetch: "fetched (snd (handleImage env (IMAGES ! k) s)) = fetched s1 @ [IMAGES ! k]"
    if cl: "clearCanvas env (s\<lparr>isProcessing := True\<rparr>) = (Inr (), s1)" for s1
  proof -
    have rn: "fetched (snd (render env img mx s4)) = fetched s4" for img mx and s4 :: "'a state"
    proof -
      obtain r5 s5 where r5: "render env img mx s4 = (r5, s5)" by (cases "render env img mx s4")
      from script_render r5 obtain ops where "s5 = s4\<lparr>canvas := canvas s4 @ ops\<rparr>"
        by (rule follows_scriptD)
      with r5 show ?thesis by simp
    qed
    have rn': "fetched s5 = fetched s4" if "render env img mx s4 = (r5, s5)"
      for img mx r5 s5 and s4 :: "'a state"
      using rn [of img mx s4] that by simp
    show ?thesis
      by (simp add: handleImage_unfold [OF assms(2)] cl Let_def rn'
          split: sum.splits prod.splits)
  qed
  show ?thesis
    using btn press fetch by (simp add: same)
qed

theorem C4_flag_not_consulted_witness:
  "segment_button (ImageSegmentation_view example_env (idle\<lparr>isProcessing := True\<rparr>)) \<and>
   onPress example_env 0 (idle\<lparr>isProcessing := True\<rparr>) =
     handleImage example_env (IMAGES ! 0) (idle\<lparr>isProcessing := False\<rparr>) \<and>
   fetched (snd (onPress example_env 0 (idle\<lparr>isProcessing := True\<rparr>))) = [IMAGES ! 0]"
proof -
  have r: "isReady example_env"
    and m: "model example_env = Some (\<lambda>t. Inr (Some example_output))"
    by (simp_all add: example_env_def)
  note all = C4_flag_not_consulted [OF r m, of idle 0]
  have cl: "clearCanvas example_env (idle\<lparr>isProcessing := True\<rparr>) =
      (Inr (), \<lparr>isProcessing = True, alerts = [], fetched = [], forwarded = [],
                canvas = [Clear, Invalidate]\<rparr>)"
    by code_simp
  from all [THEN conjunct2, THEN conjunct2, rule_format, OF cl]
  have f: "fetched (snd (onPress example_env 0 (idle\<lparr>isProcessing := True\<rparr>))) = [IMAGES ! 0]"
    by simp
  show ?thesis
    by (rule conjI [OF all [THEN conjunct1] conjI [OF all [THEN conjunct2, THEN conjunct1] f]])
qed

text \<open>
  C5, as stated, fails. When the model resolves to \<^verbatim>\<open>undefined\<close>, \<^verbatim>\<open>max\<close> is
  \<^verbatim>\<open>undefined\<close> and the read of \<^verbatim>\<open>max.data\<close> on line 134 raises after \<^verbatim>\<open>save()\<close>,
  \<^verbatim>\<open>scale()\<close> and \<^verbatim>\<open>drawImage()\<close>: the run ends without \<^verbatim>\<open>restore()\<close>.
\<close>

theorem C5_counterexample:
  "fst (handleImage undefined_output_env ''u'' idle) = Inl TypeError \<and>
   canvas (snd (handleImage undefined_output_env ''u'' idle)) =
     [Clear, Invalidate, Save, Scale (Num 200) (Num 200), DrawImage example_image 0 0 2 1] \<and>
   Restore \<notin> set (canvas (snd (handleImage undefined_output_env ''u'' idle)))"
  by code_simp

text \<open>
  C5, amended. \<^verbatim>\<open>restore()\<close> is the statement after the paint loop, not a scope exit.
  Take a run with a model and a context that has cleared the canvas, fetched and
  preprocessed the image, run the model, decoded the mask and completed \<^verbatim>\<open>save()\<close>.
  If a step between \<^verbatim>\<open>save()\<close> and \<^verbatim>\<open>restore()\<close> raises (\<^verbatim>\<open>scale\<close>, \<^verbatim>\<open>drawImage\<close>, the read
  of \<^verbatim>\<open>max.data\<close>, a fill style or a rectangle), the run ends there with that error:
  since the save, the canvas has completed neither a \<^verbatim>\<open>restore()\<close> nor another
  \<^verbatim>\<open>save()\<close>, so the save stays unmatched. If those steps complete, the run goes on
  to \<^verbatim>\<open>restore()\<close>: rejected, the run ends without it; completed, it is the one
  restore of the run, followed by the closing \<^verbatim>\<open>invalidate()\<close>.
\<close>

theorem C5_restore_after_draw:
  assumes md: "model env = Some m" and ctx: "hasContext env"
    and cl: "clearCanvas env (s\<lparr>isProcessing := True\<rparr>) = (Inr (), s2)"
    and img: "fromURL env imageUrl = Inr img"
    and t: "preprocess (arith env) img = Inr t"
    and out: "m t = Inr outp"
    and mx: "decode outp = Inr mx"
    and s4: "s4 = s2\<lparr>fetched := fetched s2 @ [imageUrl], forwarded := forwarded s2 @ [t]\<rparr>"
    and sv: "ctx_call env Save s4 = (Inr (), s5)"
  shows "(draw_sequence env img mx s5 = (Inl e, s6) \<longrightarrow>
            handleImage env imageUrl s = (Inl e, s6) \<and>
            (\<exists>ops. canvas s6 = canvas s4 @ Save # ops \<and> Save \<notin> set ops \<and> Restore \<notin> set ops)) \<and>
         (draw_sequence env img mx s5 = (Inr (), s6) \<longrightarrow>
            (\<exists>ops. canvas s6 = canvas s4 @ Save # ops \<and> Save \<notin> set ops \<and> Restore \<notin> set ops) \<and>
            handleImage env imageUrl s =
              (case raises env (canvas s6) Restore of
                 Some e' \<Rightarrow> (Inl e', s6)
               | None \<Rightarrow>
                  (case raises env (canvas s6 @ [Restore]) Invalidate of
                     Some e' \<Rightarrow> (Inl e', s6\<lparr>canvas := canvas s6 @ [Restore]\<rparr>)
                   | None \<Rightarrow>
                      (Inr (), s6\<lparr>canvas := canvas s6 @ [Restore, Invalidate],
                                  isProcessing := False\<rparr>))))"
proof -
  note run = handleImage_reaches_render [OF md ctx cl img t out mx, folded s4]
  note rn = render_after_save [OF sv, of img mx]
  have log: "\<exists>ops. canvas s6 = canvas s4 @ Save # ops \<and> Save \<notin> set ops \<and> Restore \<notin> set ops"
    if d: "draw_sequence env img mx s5 = (r, s6)" for r
  proof -
    from d obtain ops where s6: "s6 = s5\<lparr>canvas := canvas s5 @ ops\<rparr>"
      and no: "Save \<notin> set ops" "Restore \<notin> set ops"
      by (rule draw_sequence_calls)
    have "canvas s6 = canvas s4 @ Save # ops"
      by (subst s6, subst save_logged [OF sv]) simp
    with no show ?thesis by blast
  qed
  have fails: "handleImage env imageUrl s = (Inl e, s6)"
    if d: "draw_sequence env img mx s5 = (Inl e, s6)"
    by (simp add: run rn d)
  have completes: "handleImage env imageUrl s =
              (case raises env (canvas s6) Restore of
                 Some e' \<Rightarrow> (Inl e', s6)
               | None \<Rightarrow>
                  (case raises env (canvas s6 @ [Restore]) Invalidate of
                     Some e' \<Rightarrow> (Inl e', s6\<lparr>canvas := canvas s6 @ [Restore]\<rparr>)
                   | None \<Rightarrow>
                      (Inr (), s6\<lparr>canvas := canvas s6 @ [Restore, Invalidate],
                                  isProcessing := False\<rparr>)))"
    if d: "draw_sequence env img mx s5 = (Inr (), s6)"
    by (simp add: run rn d split: option.splits)
  show ?thesis
  proof (intro conjI impI)
    assume d: "draw_sequence env img mx s5 = (Inl e, s6)"
    show "handleImage env imageUrl s = (Inl e, s6)" by (rule fails [OF d])
    show "\<exists>ops. canvas s6 = canvas s4 @ Save # ops \<and> Save \<notin> set ops \<and> Restore \<notin> set ops"
      by (rule log [OF d])
  next
    assume d: "draw_sequence env img mx s5 = (Inr (), s6)"
    show "\<exists>ops. canvas s6 = canvas s4 @ Save # ops \<and> Save \<notin> set ops \<and> Restore \<notin> set ops"
      by (rule log [OF d])
    show "handleImage env imageUrl s =
              (case raises env (canvas s6) Restore of
                 Some e' \<Rightarrow> (Inl e', s6)
               | None \<Rightarrow>
                  (case raises env (canvas s6 @ [Restore]) Invalidate of
                     Some e' \<Rightarrow> (Inl e', s6\<lparr>canvas := canvas s6 @ [Restore]\<rparr>)
                   | None \<Rightarrow>
                      (Inr (), s6\<lparr>canvas := canvas s6 @ [Restore, Invalidate],
                                  isProcessing := False\<rparr>)))"
      by (rule completes [OF d])
  qed
qed

theorem C5_restore_after_draw_witness:
  "handleImage undefined_output_env ''u'' idle =
     (Inl TypeError,
      about_to_draw\<lparr>canvas := [Clear, Invalidate, Save, Scale (Num 200) (Num 200),
                               DrawImage example_image 0 0 2 1]\<rparr>) \<and>
   (\<exists>ops. canvas (about_to_draw\<lparr>canvas := [Clear, Invalidate, Save, Scale (Num 200) (Num 200),
                               DrawImage example_image 0 0 2 1]\<rparr>) =
             canvas about_to_draw @ Save # ops \<and> Save \<notin> set ops \<and> Restore \<notin> set ops) \<and>
   handleImage example_env ''u'' idle =
     (Inr (),
      about_to_draw\<lparr>canvas := [Clear, Invalidate, Save, Scale (Num 200) (Num 200),
                               DrawImage example_image 0 0 2 1,
                               FillStyle (Some ''cornsilk''), FillRect 1 0 1 1,
                               Restore, Invalidate],
                    isProcessing := False\<rparr>)"
proof -
  let ?s2 = "idle\<lparr>isProcessing := True, canvas := [Clear, Invalidate]\<rparr>"
  let ?s5 = "about_to_draw\<lparr>canvas := [Clear, Invalidate, Save]\<rparr>"
  let ?stuck = "about_to_draw\<lparr>canvas := [Clear, Invalidate, Save, Scale (Num 200) (Num 200),
                               DrawImage example_image 0 0 2 1]\<rparr>"
  let ?drawn = "about_to_draw\<lparr>canvas := [Clear, Invalidate, Save, Scale (Num 200) (Num 200),
                               DrawImage example_image 0 0 2 1,
                               FillStyle (Some ''cornsilk''), FillRect 1 0 1 1]\<rparr>"
  have pre: "preprocess example_arith example_image = Inr example_tensor" by code_simp
  have s4: "about_to_draw = ?s2\<lparr>fetched := fetched ?s2 @ [''u''],
                                   forwarded := forwarded ?s2 @ [example_tensor]\<rparr>"
    by (simp add: about_to_draw_def idle_def)
  text \<open>The run whose model resolves to \<^verbatim>\<open>undefined\<close>.\<close>
  have u1: "model undefined_output_env = Some (\<lambda>t. Inr None)"
    and u2: "hasContext undefined_output_env"
    and u4: "fromURL undefined_output_env ''u'' = Inr example_image"
    and u5: "preprocess (arith undefined_output_env) example_image = Inr example_tensor"
    and u6: "(\<lambda>t :: rat tensor. Inr None :: error + rat tensor option) example_tensor = Inr None"
    by (simp_all add: undefined_output_env_def example_env_def pre)
  have u3: "clearCanvas undefined_output_env (idle\<lparr>isProcessing := True\<rparr>) = (Inr (), ?s2)"
    by code_simp
  have u7: "decode (None :: rat tensor option) = Inr None" by (simp add: decode_def)
  have u8: "ctx_call undefined_output_env Save about_to_draw = (Inr (), ?s5)" by code_simp
  have u9: "draw_sequence undefined_output_env example_image None ?s5 = (Inl TypeError, ?stuck)"
    by code_simp
  note stuck = C5_restore_after_draw [OF u1 u2 u3 u4 u5 u6 u7 s4 u8, of TypeError ?stuck,
      THEN conjunct1, THEN mp, OF u9]
  text \<open>The run that completes.\<close>
  have e1: "model example_env = Some (\<lambda>t. Inr (Some example_output))"
    and e2: "hasContext example_env"
    and e4: "fromURL example_env ''u'' = Inr example_image"
    and e5: "preprocess (arith example_env) example_image = Inr example_tensor"
    and e6: "(\<lambda>t :: rat tensor. Inr (Some example_output) :: error + rat tensor option) example_tensor =
               Inr (Some example_output)"
    by (simp_all add: example_env_def pre)
  have e3: "clearCanvas example_env (idle\<lparr>isProcessing := True\<rparr>) = (Inr (), ?s2)"
    by code_simp
  have e7: "decode (Some example_output) = Inr (Some \<lparr>shape = [1, 2], data = [0, 2]\<rparr>)"
    by code_simp
  have e8: "ctx_call example_env Save about_to_draw = (Inr (), ?s5)" by code_simp
  have e9: "draw_sequence example_env example_image (Some \<lparr>shape = [1, 2], data = [0, 2]\<rparr>) ?s5 =
              (Inr (), ?drawn)"
    by code_simp
  note drawn = C5_restore_after_draw [OF e1 e2 e3 e4 e5 e6 e7 s4 e8, of TypeError ?drawn,
      THEN conjunct2, THEN mp, OF e9, THEN conjunct2]
  have fin: "(case raises example_env (canvas ?drawn) Restore of
                 Some e' \<Rightarrow> (Inl e', ?drawn)
               | None \<Rightarrow>
                  (case raises example_env (canvas ?drawn @ [Restore]) Invalidate of
                     Some e' \<Rightarrow> (Inl e', ?drawn\<lparr>canvas := canvas ?drawn @ [Restore]\<rparr>)
                   | None \<Rightarrow>
                      (Inr (), ?drawn\<lparr>canvas := canvas ?drawn @ [Restore, Invalidate],
                                  isProcessing := False\<rparr>))) =
     (Inr (),
      about_to_draw\<lparr>canvas := [Clear, Invalidate, Save, Scale (Num 200) (Num 200),
                               DrawImage example_image 0 0 2 1,
                               FillStyle (Some ''cornsilk''), FillRect 1 0 1 1,
                               Restore, Invalidate],
                    isProcessing := False\<rparr>)"
    by code_simp
  show ?thesis
    by (rule conjI [OF stuck [THEN conjunct1] conjI [OF stuck [THEN conjunct2] trans [OF drawn fin]]])
qed

text \<open>
  C6, as stated, fails. For scores of 22 classes whose last class wins, the mask holds
  21, one past the palette; the run completes normally, having assigned
  \<^verbatim>\<open>undefined\<close> to \<^verbatim>\<open>fillStyle\<close> and painted both rectangles.
\<close>

theorem C6_counterexample:
  "decode (Some oversized_output) = Inr (Some \<lparr>shape = [1, 2], data = [21, 21]\<rparr>) \<and>
   \<not> 21 < length PALETTE \<and>
   fst (handleImage oversized_env ''u'' idle) = Inr () \<and>
   canvas (snd (handleImage oversized_env ''u'' idle)) =
     [Clear, Invalidate, Save, Scale (Num 200) (Num 200), DrawImage example_image 0 0 2 1,
      FillStyle None, FillRect 0 0 1 1, FillStyle None, FillRect 1 0 1 1, Restore, Invalidate]"
  by code_simp

text \<open>
  C6, amended. Lines 137 to 141 do not compare the index with the palette's length: for
  an index at or past the end, \<^verbatim>\<open>PALETTE[idx]\<close> is \<^verbatim>\<open>undefined\<close>, it is assigned to
  \<^verbatim>\<open>fillStyle\<close>, and the rectangle at \<open>(j, i)\<close> is painted. Unless the runtime rejects a
  call, the render returns normally whatever the mask holds.
\<close>

theorem C6_palette_not_checked:
  assumes "raises env = (\<lambda>log op. None)"
    and "colors_at colors (i * w + j) = Some idx" and "int (length PALETTE) \<le> idx"
  shows "paintPixel env colors w i j s =
           (Inr (), s\<lparr>canvas := canvas s @ [FillStyle None, FillRect j i 1 1]\<rparr>) \<and>
         fst (render env img (Some t) s0) = Inr ()"
proof
  have "0 < idx" using assms(3) by (simp add: PALETTE_def)
  moreover have "palette_at idx = None" using assms(3) by (simp add: palette_at_def)
  ultimately show "paintPixel env colors w i j s =
           (Inr (), s\<lparr>canvas := canvas s @ [FillStyle None, FillRect j i 1 1]\<rparr>)"
    by (simp add: paintPixel_ok [OF assms(1)] pixel_calls_def assms(2))
  show "fst (render env img (Some t) s0) = Inr ()"
    by (simp add: render_ok [OF assms(1)])
qed

theorem C6_palette_not_checked_witness:
  "paintPixel example_env [21, 21] 2 0 1 idle =
           (Inr (), idle\<lparr>canvas := canvas idle @ [FillStyle None, FillRect 1 0 1 1]\<rparr>) \<and>
   fst (render example_env example_image (Some \<lparr>shape = [1, 2], data = [21, 21]\<rparr>) idle) = Inr ()"
  by (rule C6_palette_not_checked [where idx = 21])
     (simp_all add: example_env_def colors_at_def PALETTE_def)

text \<open>
  C7. For a mask of the image's shape with entries that are class indices (not
  negative), and a runtime that rejects no call, the render makes exactly the calls
  save, scale, drawImage, the overlay as the specification describes it, restore,
  invalidate. In that overlay the rectangle at \<open>(j, i)\<close> occurs once if
  \<open>mask[i][j] \<noteq> 0\<close> and not at all otherwise, each preceded by the assignment of
  \<open>PALETTE[mask[i][j]]\<close>. For a mask of zeros the calls are save, scale, drawImage,
  restore, invalidate: no rectangle.
\<close>

theorem C7_overlay_painted:
  assumes "raises env = (\<lambda>log op. None)"
    and "length (data t) = getHeight img * getWidth img"
    and "\<forall>k<getHeight img * getWidth img. 0 \<le> data t ! k"
  shows "render env img (Some t) s =
           (Inr (), s\<lparr>canvas := canvas s @
              [Save,
               Scale (newScaleFactor (windowWidth env) (getHeight img) (getWidth img))
                     (newScaleFactor (windowWidth env) (getHeight img) (getWidth img)),
               DrawImage img 0 0 (getWidth img) (getHeight img)] @
              spec_overlay (data t) (getHeight img) (getWidth img) @
              [Restore, Invalidate]\<rparr>) \<and>
         (\<forall>i<getHeight img. \<forall>j<getWidth img.
            count_list (spec_overlay (data t) (getHeight img) (getWidth img)) (FillRect j i 1 1) =
              (if data t ! (i * getWidth img + j) \<noteq> 0 then 1 else 0)) \<and>
         ((\<forall>k<getHeight img * getWidth img. data t ! k = 0) \<longrightarrow>
            render env img (Some t) s =
              (Inr (), s\<lparr>canvas := canvas s @
                 [Save,
                  Scale (newScaleFactor (windowWidth env) (getHeight img) (getWidth img))
                        (newScaleFactor (windowWidth env) (getHeight img) (getWidth img)),
                  DrawImage img 0 0 (getWidth img) (getHeight img),
                  Restore, Invalidate]\<rparr>))"
proof (intro conjI allI impI)
  have rs: "render_script env img (Some t) =
              [Save,
               Scale (newScaleFactor (windowWidth env) (getHeight img) (getWidth img))
                     (newScaleFactor (windowWidth env) (getHeight img) (getWidth img)),
               DrawImage img 0 0 (getWidth img) (getHeight img)] @
              spec_overlay (data t) (getHeight img) (getWidth img) @
              [Restore, Invalidate]"
    by (simp add: render_script_def Let_def rows_calls_overlay [OF assms(2,3)])
  show full: "render env img (Some t) s =
           (Inr (), s\<lparr>canvas := canvas s @
              [Save,
               Scale (newScaleFactor (windowWidth env) (getHeight img) (getWidth img))
                     (newScaleFactor (windowWidth env) (getHeight img) (getWidth img)),
               DrawImage img 0 0 (getWidth img) (getHeight img)] @
              spec_overlay (data t) (getHeight img) (getWidth img) @
              [Restore, Invalidate]\<rparr>)"
    unfolding rs [symmetric] by (rule render_ok [OF assms(1)])
  show "count_list (spec_overlay (data t) (getHeight img) (getWidth img)) (FillRect j i 1 1) =
              (if data t ! (i * getWidth img + j) \<noteq> 0 then 1 else 0)"
    if "i < getHeight img" "j < getWidth img" for i j
    using that by (rule count_overlay)
  show "render env img (Some t) s =
              (Inr (), s\<lparr>canvas := canvas s @
                 [Save,
                  Scale (newScaleFactor (windowWidth env) (getHeight img) (getWidth img))
                        (newScaleFactor (windowWidth env) (getHeight img) (getWidth img)),
                  DrawImage img 0 0 (getWidth img) (getHeight img),
                  Restore, Invalidate]\<rparr>)"
    if "\<forall>k<getHeight img * getWidth img. data t ! k = 0"
    using full by (simp add: overlay_zero [OF that])
qed

theorem C7_overlay_painted_witness:
  "render example_env example_image (Some \<lparr>shape = [1, 2], data = [0, 2 :: int]\<rparr>) idle =
     (Inr (), idle\<lparr>canvas :=
        [Save, Scale (Num 200) (Num 200), DrawImage example_image 0 0 2 1,
         FillStyle (Some ''cornsilk''), FillRect 1 0 1 1, Restore, Invalidate]\<rparr>) \<and>
   count_list (spec_overlay (data \<lparr>shape = [1, 2], data = [0, 2 :: int]\<rparr>) (getHeight example_image) (getWidth example_image))
      (FillRect 0 0 1 1) = 0 \<and>
   count_list (spec_overlay (data \<lparr>shape = [1, 2], data = [0, 2 :: int]\<rparr>) (getHeight example_image) (getWidth example_image))
      (FillRect 1 0 1 1) = 1 \<and>
   render example_env example_image (Some \<lparr>shape = [1, 2], data = [0, 0 :: int]\<rparr>) idle =
     (Inr (), idle\<lparr>canvas :=
        [Save, Scale (Num 200) (Num 200), DrawImage example_image 0 0 2 1, Restore, Invalidate]\<rparr>)"
proof -
  have nr: "raises example_env = (\<lambda>log op. None)" by (simp add: example_env_def)
  have a: "length (data \<lparr>shape = [1, 2], data = [0, 2 :: int]\<rparr>) = getHeight example_image * getWidth example_image"
    and a0: "length (data \<lparr>shape = [1, 2], data = [0, 0 :: int]\<rparr>) = getHeight example_image * getWidth example_image"
    by (simp_all add: example_image_def)
  have b: "\<forall>k<getHeight example_image * getWidth example_image. 0 \<le> data \<lparr>shape = [1, 2], data = [0, 2 :: int]\<rparr> ! k"
    and b0: "\<forall>k<getHeight example_image * getWidth example_image. 0 \<le> data \<lparr>shape = [1, 2], data = [0, 0 :: int]\<rparr> ! k"
    and z0: "\<forall>k<getHeight example_image * getWidth example_image. data \<lparr>shape = [1, 2], data = [0, 0 :: int]\<rparr> ! k = 0"
    by (auto simp: example_image_def less_Suc_eq nth_Cons split: nat.splits)
  have i0: "0 < getHeight example_image" and j0: "0 < getWidth example_image"
    and j1: "1 < getWidth example_image"
    by (simp_all add: example_image_def)
  note all = C7_overlay_painted [OF nr a b, of idle]
  note zero = C7_overlay_painted [OF nr a0 b0, of idle, THEN conjunct2, THEN conjunct2, THEN mp, OF z0]
  have e1: "(Inr () :: error + unit, idle\<lparr>canvas := canvas idle @
        [Save,
        Scale (newScaleFactor (windowWidth example_env) (getHeight example_image) (getWidth example_image))
              (newScaleFactor (windowWidth example_env) (getHeight example_image) (getWidth example_image)),
        DrawImage example_image 0 0 (getWidth example_image) (getHeight example_image)] @
        spec_overlay (data \<lparr>shape = [1, 2], data = [0, 2 :: int]\<rparr>) (getHeight example_image) (getWidth example_image) @
        [Restore, Invalidate]\<rparr>) =
     (Inr (), idle\<lparr>canvas :=
        [Save, Scale (Num 200) (Num 200), DrawImage example_image 0 0 2 1,
         FillStyle (Some ''cornsilk''), FillRect 1 0 1 1, Restore, Invalidate]\<rparr>)"
    by code_simp
  have e2: "(Inr () :: error + unit, idle\<lparr>canvas := canvas idle @
        [Save,
         Scale (newScaleFactor (windowWidth example_env) (getHeight example_image) (getWidth example_image))
               (newScaleFactor (windowWidth example_env) (getHeight example_image) (getWidth example_image)),
         DrawImage example_image 0 0 (getWidth example_image) (getHeight example_image),
         Restore, Invalidate]\<rparr>) =
     (Inr (), idle\<lparr>canvas :=
        [Save, Scale (Num 200) (Num 200), DrawImage example_image 0 0 2 1, Restore, Invalidate]\<rparr>)"
    by code_simp
  have one: "render example_env example_image (Some \<lparr>shape = [1, 2], data = [0, 2 :: int]\<rparr>) idle =
     (Inr (), idle\<lparr>canvas :=
        [Save, Scale (Num 200) (Num 200), DrawImage example_image 0 0 2 1,
         FillStyle (Some ''cornsilk''), FillRect 1 0 1 1, Restore, Invalidate]\<rparr>)"
    by (rule trans [OF all [THEN conjunct1] e1])
  have none: "render example_env example_image (Some \<lparr>shape = [1, 2], data = [0, 0 :: int]\<rparr>) idle =
     (Inr (), idle\<lparr>canvas :=
        [Save, Scale (Num 200) (Num 200), DrawImage example_image 0 0 2 1, Restore, Invalidate]\<rparr>)"
    by (rule trans [OF zero e2])
  note cnt = all [THEN conjunct2, THEN conjunct1, rule_format]
  have c0: "count_list (spec_overlay (data \<lparr>shape = [1, 2], data = [0, 2 :: int]\<rparr>) (getHeight example_image) (getWidth example_image))
      (FillRect 0 0 1 1) = 0"
    using cnt [OF i0 j0] by simp
  have c1: "count_list (spec_overlay (data \<lparr>shape = [1, 2], data = [0, 2 :: int]\<rparr>) (getHeight example_image) (getWidth example_image))
      (FillRect 1 0 1 1) = 1"
    using cnt [OF i0 j1] by simp
  show ?thesis
    by (rule conjI [OF one conjI [OF c0 conjI [OF c1 none]]])
qed

text \<open>
  C8. For an image of positive height and width, line 124 computes
  \<open>min (250 / height) (windowWidth / width)\<close>; the target box is 250 high and as wide as
  the window. When the image is 250 high and as wide as the window, the factor is 1.
\<close>

theorem C8_scale_factor:
  "(0 < h \<and> 0 < w \<longrightarrow>
      newScaleFactor ww h w = Num (min (250 / real h) (ww / real w))) \<and>
   (0 < w \<longrightarrow> newScaleFactor (real w) 250 w = Num 1)"
  by (simp add: newScaleFactor_def js_div_def)

theorem C8_scale_factor_witness:
  "newScaleFactor 400 100 200 = Num 2 \<and> newScaleFactor 400 250 400 = Num 1"
proof -
  have a: "newScaleFactor 400 100 200 = Num (min (250 / real 100) (400 / real 200))"
    by (rule C8_scale_factor [THEN conjunct1, THEN mp]) simp
  have b: "newScaleFactor (real 400) 250 400 = Num 1"
    by (rule C8_scale_factor [THEN conjunct2, THEN mp]) simp
  from a b show ?thesis by simp
qed

text \<open>
  C9. With the model \<^verbatim>\<open>null\<close>, \<^verbatim>\<open>handleImage\<close> shows the alert and returns: nothing is
  fetched, no inference is run, the canvas is not touched and \<open>isProcessing\<close> keeps its
  value.
\<close>

theorem C9_model_not_ready:
  assumes "model env = None"
  shows "handleImage env imageUrl s =
           (Inr (), s\<lparr>alerts := alerts s @ [(''Model not loaded'', ''The model has not been loaded yet'')]\<rparr>) \<and>
         fetched (snd (handleImage env imageUrl s)) = fetched s \<and>
         forwarded (snd (handleImage env imageUrl s)) = forwarded s \<and>
         isProcessing (snd (handleImage env imageUrl s)) = isProcessing s \<and>
         canvas (snd (handleImage env imageUrl s)) = canvas s"
  by (simp add: handleImage_def assms alert_def)

theorem C9_model_not_ready_witness:
  "handleImage (example_env\<lparr>model := None\<rparr>) ''u'' idle =
     (Inr (), idle\<lparr>alerts := alerts idle @ [(''Model not loaded'', ''The model has not been loaded yet'')]\<rparr>) \<and>
   fetched (snd (handleImage (example_env\<lparr>model := None\<rparr>) ''u'' idle)) = fetched idle \<and>
   forwarded (snd (handleImage (example_env\<lparr>model := None\<rparr>) ''u'' idle)) = forwarded idle \<and>
   isProcessing (snd (handleImage (example_env\<lparr>model := None\<rparr>) ''u'' idle)) = isProcessing idle \<and>
   canvas (snd (handleImage (example_env\<lparr>model := None\<rparr>) ''u'' idle)) = canvas idle"
  by (rule C9_model_not_ready) simp

text \<open>
  C10. With a model but no drawing context, and the fetch, the preprocessing and the
  inference succeeding, \<^verbatim>\<open>handleImage\<close> fetches the image, runs the model on the
  preprocessed tensor and decodes the output. If the decoding succeeds the run returns
  normally with \<open>isProcessing\<close> false; that the decoding is carried out shows in its
  failure, which ends the run with the decoder's error. In either case the canvas
  receives no call.
\<close>

theorem C10_null_context:
  assumes "model env = Some m" and "\<not> hasContext env"
    and "fromURL env imageUrl = Inr img"
    and "preprocess (arith env) img = Inr t"
    and "m t = Inr outp"
  shows "(decode outp = Inr mx \<longrightarrow>
            handleImage env imageUrl s =
              (Inr (), s\<lparr>isProcessing := False,
                         fetched := fetched s @ [imageUrl],
                         forwarded := forwarded s @ [t]\<rparr>)) \<and>
         (decode outp = Inl e \<longrightarrow>
            handleImage env imageUrl s =
              (Inl e, s\<lparr>isProcessing := True,
                        fetched := fetched s @ [imageUrl],
                        forwarded := forwarded s @ [t]\<rparr>)) \<and>
         canvas (snd (handleImage env imageUrl s)) = canvas s"
proof -
  have run: "handleImage env imageUrl s =
     (case decode outp of
        Inl e \<Rightarrow> (Inl e, s\<lparr>isProcessing := True,
                        fetched := fetched s @ [imageUrl],
                        forwarded := forwarded s @ [t]\<rparr>)
      | Inr mx \<Rightarrow> (Inr (), s\<lparr>isProcessing := False,
                         fetched := fetched s @ [imageUrl],
                         forwarded := forwarded s @ [t]\<rparr>))"
    by (simp add: handleImage_unfold [OF assms(1)] clearCanvas_def ret_def assms(2-5)
        split: sum.splits)
  show ?thesis
    by (cases "decode outp") (simp_all add: run)
qed

theorem C10_null_context_witness:
  "handleImage no_context_env ''u'' idle =
     (Inr (), idle\<lparr>isProcessing := False,
                   fetched := fetched idle @ [''u''],
                   forwarded := forwarded idle @ [example_tensor]\<rparr>) \<and>
   canvas (snd (handleImage no_context_env ''u'' idle)) = canvas idle \<and>
   handleImage batch_env ''u'' idle =
     (Inl UnsupportedBatchSizeError,
      idle\<lparr>isProcessing := True,
           fetched := fetched idle @ [''u''],
           forwarded := forwarded idle @ [example_tensor]\<rparr>)"
proof -
  have pre: "preprocess example_arith example_image = Inr example_tensor" by code_simp
  have n1: "model no_context_env = Some (\<lambda>t. Inr (Some example_output))"
    and n2: "\<not> hasContext no_context_env"
    and n3: "fromURL no_context_env ''u'' = Inr example_image"
    and n4: "preprocess (arith no_context_env) example_image = Inr example_tensor"
    and n5: "(\<lambda>t :: rat tensor. Inr (Some example_output) :: error + rat tensor option) example_tensor =
               Inr (Some example_output)"
    by (simp_all add: no_context_env_def example_env_def pre)
  have n6: "decode (Some example_output) = Inr (Some \<lparr>shape = [1, 2], data = [0, 2]\<rparr>)"
    by code_simp
  note ok = C10_null_context [OF n1 n2 n3 n4 n5, of "Some \<lparr>shape = [1, 2], data = [0, 2]\<rparr>" idle]
  have b1: "model batch_env = Some (\<lambda>t. Inr (Some batch_output))"
    and b2: "\<not> hasContext batch_env"
    and b3: "fromURL batch_env ''u'' = Inr example_image"
    and b4: "preprocess (arith batch_env) example_image = Inr example_tensor"
    and b5: "(\<lambda>t :: rat tensor. Inr (Some batch_output) :: error + rat tensor option) example_tensor =
               Inr (Some batch_output)"
    by (simp_all add: batch_env_def example_env_def pre)
  have b6: "decode (Some batch_output) = Inl UnsupportedBatchSizeError"
    by code_simp
  note bad = C10_null_context [OF b1 b2 b3 b4 b5, of _ idle UnsupportedBatchSizeError]
  show ?thesis
    by (rule conjI [OF ok [THEN conjunct1, THEN mp, OF n6]
          conjI [OF ok [THEN conjunct2, THEN conjunct2]
                    bad [THEN conjunct2, THEN conjunct1, THEN mp, OF b6]]])
qed

end
